theory Spec2Isabelle
  imports Main
begin

section \<open>Values of a parsed bundle and the exceptions of the interpreter\<close>

text \<open>
  The parser works on what \<^verbatim>\<open>plistlib.readPlist\<close> returns: dictionaries with string
  keys, lists, strings, integers and booleans, nested at will. \<open>PNone\<close> is Python's
  \<^verbatim>\<open>None\<close>, the value of \<^verbatim>\<open>d.get(k)\<close> for a missing key. A dictionary is
  an association list read through \<open>map_of\<close>. Real, date and data leaves of a plist are
  not represented: the code under study never computes with one.
\<close>

datatype exn =
    ExpatError | TypeError | AttributeError | IndexError | KeyError | IOError | OtherError

datatype pvalue =
    PNone
  | PBool bool
  | PInt int
  | PStr string
  | PList "pvalue list"
  | PDict "(string \<times> pvalue) list"

datatype logmsg =
    LogDebug string | LogWarning string | LogError string | LogErrorExn exn

type_synonym log = "logmsg list"

text \<open>Sequencing of a computation that may raise.\<close>

definition bindE :: "exn + 'a \<Rightarrow> ('a \<Rightarrow> exn + 'b) \<Rightarrow> exn + 'b" where
  "bindE m f = (case m of Inl e \<Rightarrow> Inl e | Inr v \<Rightarrow> f v)"

text \<open>Truth value of an object in a condition (\<^verbatim>\<open>if not x\<close>).\<close>

fun truthy :: "pvalue \<Rightarrow> bool" where
  "truthy PNone = False"
| "truthy (PBool b) = b"
| "truthy (PInt i) = (i \<noteq> 0)"
| "truthy (PStr s) = (s \<noteq> [])"
| "truthy (PList xs) = (xs \<noteq> [])"
| "truthy (PDict al) = (al \<noteq> [])"

text \<open>
  \<^verbatim>\<open>xs[i]\<close> on a sequence: a negative index counts from the end, an index outside the
  sequence raises IndexError. A boolean is an integer (\<^verbatim>\<open>True == 1\<close>).
\<close>

definition seq_index :: "'a list \<Rightarrow> int \<Rightarrow> exn + 'a" where
  "seq_index xs i =
     (if 0 \<le> i \<and> i < int (length xs) then Inr (xs ! nat i)
      else if i < 0 \<and> 0 \<le> int (length xs) + i then Inr (xs ! nat (int (length xs) + i))
      else Inl IndexError)"

fun as_index :: "pvalue \<Rightarrow> int option" where
  "as_index (PInt i) = Some i"
| "as_index (PBool b) = Some (if b then 1 else 0)"
| "as_index _ = None"

text \<open>\<^verbatim>\<open>obj[key]\<close>.\<close>

fun subscript :: "pvalue \<Rightarrow> pvalue \<Rightarrow> exn + pvalue" where
  "subscript (PDict al) k =
     (case k of
        PStr s \<Rightarrow> (case map_of al s of Some v \<Rightarrow> Inr v | None \<Rightarrow> Inl KeyError)
      | PList _ \<Rightarrow> Inl TypeError
      | PDict _ \<Rightarrow> Inl TypeError
      | _ \<Rightarrow> Inl KeyError)"
| "subscript (PList xs) k =
     (case as_index k of Some i \<Rightarrow> seq_index xs i | None \<Rightarrow> Inl TypeError)"
| "subscript (PStr s) k =
     (case as_index k of
        Some i \<Rightarrow> (case seq_index s i of Inl e \<Rightarrow> Inl e | Inr c \<Rightarrow> Inr (PStr [c]))
      | None \<Rightarrow> Inl TypeError)"
| "subscript _ _ = Inl TypeError"

text \<open>\<^verbatim>\<open>obj.get(key)\<close>: only a dictionary has the method.\<close>

fun get_method :: "pvalue \<Rightarrow> string \<Rightarrow> exn + pvalue" where
  "get_method (PDict al) k = (case map_of al k of Some v \<Rightarrow> Inr v | None \<Rightarrow> Inr PNone)"
| "get_method _ k = Inl AttributeError"

text \<open>
  \<^verbatim>\<open>for x in obj\<close>: a list yields its elements, a dictionary its keys, a string its
  characters; nothing else can be iterated.
\<close>

fun iterate :: "pvalue \<Rightarrow> exn + pvalue list" where
  "iterate (PList xs) = Inr xs"
| "iterate (PDict al) = Inr (map (\<lambda>kv. PStr (fst kv)) al)"
| "iterate (PStr s) = Inr (map (\<lambda>c. PStr [c]) s)"
| "iterate _ = Inl TypeError"

text \<open>\<^verbatim>\<open>d[k] = v\<close> on a dictionary: replace the binding in place or add it.\<close>

fun dict_set :: "'k \<Rightarrow> 'v \<Rightarrow> ('k \<times> 'v) list \<Rightarrow> ('k \<times> 'v) list" where
  "dict_set k v [] = [(k, v)]"
| "dict_set k v (kv # al) = (if fst kv = k then (k, v) # al else kv # dict_set k v al)"

section \<open>Paths\<close>

text \<open>\<^verbatim>\<open>os.path.basename\<close>: what follows the last slash.\<close>

definition basename :: "string \<Rightarrow> string" where
  "basename p = rev (takeWhile (\<lambda>c. c \<noteq> CHR ''/'') (rev p))"

text \<open>\<^verbatim>\<open>s.lstrip('/')\<close> and \<^verbatim>\<open>os.path.join(a, b)\<close> for two components.\<close>

definition lstrip_slash :: "string \<Rightarrow> string" where
  "lstrip_slash s = dropWhile (\<lambda>c. c = CHR ''/'') s"

definition path_join :: "string \<Rightarrow> string \<Rightarrow> string" where
  "path_join a b =
     (if b \<noteq> [] \<and> hd b = CHR ''/'' then b
      else if a = [] \<or> last a = CHR ''/'' then a @ b
      else a @ ''/'' @ b)"

section \<open>Identity hash resolver\<close>

definition hash_key :: string where
  "hash_key = ''issue_hash_content_of_line_in_context''"

text \<open>
  \<^verbatim>\<open>get_checker_name(diagnostic, path)\<close>. A function that logs returns, next to
  its result, the messages it has sent to the log.
\<close>

definition get_checker_name :: "pvalue \<Rightarrow> string \<Rightarrow> (exn + pvalue) \<times> log" where
  "get_checker_name diagnostic path =
     (case get_method diagnostic ''check_name'' of
        Inl e \<Rightarrow> (Inl e, [])
      | Inr checker_name \<Rightarrow>
          if \<not> truthy checker_name
          then (Inr (PStr ''unknown''),
                [LogWarning (''Check name wasn't found in the plist file '' @ [CHR 0x27]
                             @ path @ [CHR 0x27] @ ''. '')])
          else (Inr checker_name, []))"

text \<open>
  \<^verbatim>\<open>get_report_hash(diagnostic, source_file)\<close>. The content-hash function
  \<^verbatim>\<open>generate_report_hash\<close> lives outside the files under study and is the parameter
  \<open>gen\<close>: a function of the bug path, the source file and the checker name that returns
  a string or raises.
\<close>

type_synonym hashfun = "pvalue \<Rightarrow> pvalue \<Rightarrow> pvalue \<Rightarrow> exn + string"

definition get_report_hash :: "hashfun \<Rightarrow> pvalue \<Rightarrow> pvalue \<Rightarrow> (exn + pvalue) \<times> log" where
  "get_report_hash gen diagnostic source_file =
     (case get_method diagnostic hash_key of
        Inl e \<Rightarrow> (Inl e, [])
      | Inr report_hash \<Rightarrow>
          if \<not> truthy report_hash
          then (case subscript diagnostic (PStr ''path'') of
                  Inl e \<Rightarrow> (Inl e, [])
                | Inr p \<Rightarrow>
                    (case get_checker_name diagnostic [] of
                       (Inl e, lg) \<Rightarrow> (Inl e, lg)
                     | (Inr cn, lg) \<Rightarrow>
                         (case gen p source_file cn of
                            Inl e \<Rightarrow> (Inl e, lg)
                          | Inr h \<Rightarrow> (Inr (PStr h), lg))))
          else (Inr report_hash, []))"

section \<open>Diagnostic bundle parser\<close>

text \<open>
  \<^verbatim>\<open>Report(main_section, bug_path_items, files)\<close>: the class is a plain holder of
  its three constructor arguments, read back as \<^verbatim>\<open>report.main\<close>,
  \<^verbatim>\<open>report.bug_path\<close> and \<^verbatim>\<open>report.files\<close>.
\<close>

record report =
  main :: pvalue
  bug_path :: "pvalue list"
  files :: pvalue

text \<open>
  The persisted bundles. \<^verbatim>\<open>plistlib.readPlist(path)\<close> either raises (a missing
  file, text that is no plist) or returns the parsed value; \<^verbatim>\<open>plistlib.writePlist\<close>
  replaces the content at the path or raises when the path cannot be written. A value
  written is the value read back later.
\<close>

datatype fcontent = Unreadable exn | Content pvalue

record world =
  store :: "string \<Rightarrow> fcontent"
  write_fails :: "string \<Rightarrow> bool"

definition readPlist :: "world \<Rightarrow> string \<Rightarrow> exn + pvalue" where
  "readPlist w path = (case store w path of Unreadable e \<Rightarrow> Inl e | Content p \<Rightarrow> Inr p)"

definition writePlist :: "world \<Rightarrow> pvalue \<Rightarrow> string \<Rightarrow> exn + world" where
  "writePlist w p path =
     (if write_fails w path then Inl IOError
      else Inr (w\<lparr>store := (store w)(path := Content p)\<rparr>))"

text \<open>
  Lines 98 to 102: every field of the diagnostic but \<^verbatim>\<open>path\<close> is copied into a
  fresh dictionary, key by key.
\<close>

definition main_section_of :: "(string \<times> pvalue) list \<Rightarrow> (string \<times> pvalue) list" where
  "main_section_of al =
     fold (\<lambda>key m. if key \<noteq> ''path''
                    then (case map_of al key of Some v \<Rightarrow> dict_set key v m | None \<Rightarrow> m)
                    else m)
          (map fst al) []"

text \<open>
  Lines 110 to 112: the diagnostic's file is looked up in the file table and, under a
  non-empty source root, joined to the root.
\<close>

definition primary_file :: "pvalue \<Rightarrow> pvalue \<Rightarrow> exn + pvalue" where
  "primary_file file_table diag =
     bindE (subscript diag (PStr ''location'')) (\<lambda>loc.
     bindE (subscript loc (PStr ''file'')) (\<lambda>fid.
     subscript file_table fid))"

definition under_source_root :: "string option \<Rightarrow> pvalue \<Rightarrow> exn + pvalue" where
  "under_source_root source_root file_path =
     (case source_root of
        None \<Rightarrow> Inr file_path
      | Some r \<Rightarrow>
          if r = [] then Inr file_path
          else (case file_path of
                  PStr s \<Rightarrow> Inr (PStr (path_join r (lstrip_slash s)))
                | _ \<Rightarrow> Inl AttributeError))"

text \<open>
  The body of the loop over the diagnostics (lines 96 to 127) for one diagnostic. It
  yields the report, the diagnostic as the loop leaves it in memory (with the hash written
  back when the key was missing) and whether it was changed, or the exception raised;
  \<^verbatim>\<open>diag.keys()\<close> raises AttributeError on anything but a dictionary.
\<close>

definition parse_diag ::
  "hashfun \<Rightarrow> string \<Rightarrow> string option \<Rightarrow> pvalue \<Rightarrow> pvalue
     \<Rightarrow> (exn + (report \<times> pvalue \<times> bool)) \<times> log" where
  "parse_diag gen path source_root file_table diag =
     (case diag of
        PDict al \<Rightarrow>
          (case get_checker_name diag path of
             (Inl e, lg1) \<Rightarrow> (Inl e, lg1)
           | (Inr checker_name, lg1) \<Rightarrow>
               (case bindE (primary_file file_table diag) (under_source_root source_root) of
                  Inl e \<Rightarrow> (Inl e, lg1)
                | Inr file_path \<Rightarrow>
                    (case get_report_hash gen diag file_path of
                       (Inl e, lg2) \<Rightarrow> (Inl e, lg1 @ lg2)
                     | (Inr report_hash, lg2) \<Rightarrow>
                         (let main_section =
                                dict_set hash_key report_hash
                                  (dict_set ''check_name'' checker_name (main_section_of al));
                              changed = (map_of al hash_key = None);
                              diag' = (if changed then PDict (dict_set hash_key report_hash al)
                                       else diag)
                          in (case bindE (subscript diag' (PStr ''path'')) iterate of
                                Inl e \<Rightarrow> (Inl e, lg1 @ lg2)
                              | Inr bug_path_items \<Rightarrow>
                                  (Inr (\<lparr>main = PDict main_section,
                                          bug_path = bug_path_items,
                                          files = file_table\<rparr>, diag', changed),
                                   lg1 @ lg2))))))
      | _ \<Rightarrow> (Inl AttributeError, []))"

text \<open>
  The loop. Its state is the list of reports, the diagnostics as mutated so far, the
  \<^verbatim>\<open>diag_changed\<close> flag and the log. An exception ends the loop at once; the
  state returned with it is the one after the last diagnostic that went through, with the
  log as the failing diagnostic left it.
\<close>

record pstate =
  reports :: "report list"
  diags_seen :: "pvalue list"
  diag_changed :: bool
  plog :: log

fun parse_loop ::
  "hashfun \<Rightarrow> string \<Rightarrow> string option \<Rightarrow> pvalue \<Rightarrow> pvalue list \<Rightarrow> pstate
     \<Rightarrow> exn option \<times> pstate" where
  "parse_loop gen path source_root file_table [] st = (None, st)"
| "parse_loop gen path source_root file_table (diag # rest) st =
     (case parse_diag gen path source_root file_table diag of
        (Inl e, lg) \<Rightarrow> (Some e, st\<lparr>plog := plog st @ lg\<rparr>)
      | (Inr (r, diag', changed), lg) \<Rightarrow>
          parse_loop gen path source_root file_table rest
            \<lparr>reports = reports st @ [r],
             diags_seen = diags_seen st @ [diag'],
             diag_changed = (diag_changed st \<or> changed),
             plog = plog st @ lg\<rparr>)"

text \<open>\<^verbatim>\<open>d[k] = v\<close> on a value that is a dictionary.\<close>

fun set_item :: "pvalue \<Rightarrow> string \<Rightarrow> pvalue \<Rightarrow> pvalue" where
  "set_item (PDict al) k v = PDict (dict_set k v al)"
| "set_item p k v = p"

text \<open>
  The \<^verbatim>\<open>try\<close> block of \<^verbatim>\<open>parse_plist\<close> (lines 89 to 133): what it has
  bound to \<^verbatim>\<open>files\<close> and \<^verbatim>\<open>reports\<close> when it ends, the exception that
  ended it if any, the flag, the persisted bundles and the messages it has logged.
\<close>

record body_result =
  pending :: "exn option"
  b_files :: pvalue
  b_reports :: "report list"
  b_changed :: bool
  b_world :: world
  b_log :: log

definition parse_body ::
  "hashfun \<Rightarrow> world \<Rightarrow> string \<Rightarrow> string option \<Rightarrow> bool \<Rightarrow> body_result" where
  "parse_body gen w path source_root allow_plist_update =
     (case readPlist w path of
        Inl e \<Rightarrow> \<lparr>pending = Some e, b_files = PList [], b_reports = [], b_changed = False,
                  b_world = w, b_log = []\<rparr>
      | Inr plist \<Rightarrow>
          (case subscript plist (PStr ''files'') of
             Inl e \<Rightarrow> \<lparr>pending = Some e, b_files = PList [], b_reports = [],
                       b_changed = False, b_world = w, b_log = []\<rparr>
           | Inr file_table \<Rightarrow>
               (case bindE (subscript plist (PStr ''diagnostics'')) iterate of
                  Inl e \<Rightarrow> \<lparr>pending = Some e, b_files = file_table, b_reports = [],
                            b_changed = False, b_world = w, b_log = []\<rparr>
                | Inr diags \<Rightarrow>
                    (case parse_loop gen path source_root file_table diags
                            \<lparr>reports = [], diags_seen = [], diag_changed = False, plog = []\<rparr> of
                       (Some e, st) \<Rightarrow>
                         \<lparr>pending = Some e, b_files = file_table, b_reports = reports st,
                          b_changed = diag_changed st, b_world = w, b_log = plog st\<rparr>
                     | (None, st) \<Rightarrow>
                         if diag_changed st \<and> allow_plist_update
                         then (case writePlist w
                                      (set_item plist ''diagnostics'' (PList (diags_seen st)))
                                      path of
                                 Inl e \<Rightarrow>
                                   \<lparr>pending = Some e, b_files = file_table,
                                    b_reports = reports st, b_changed = True,
                                    b_world = w, b_log = plog st\<rparr>
                               | Inr w' \<Rightarrow>
                                   \<lparr>pending = None, b_files = file_table,
                                    b_reports = reports st, b_changed = True,
                                    b_world = w', b_log = plog st\<rparr>)
                         else \<lparr>pending = None, b_files = file_table, b_reports = reports st,
                               b_changed = diag_changed st, b_world = w, b_log = plog st\<rparr>))))"

text \<open>The three \<^verbatim>\<open>except\<close> clauses (lines 134 to 150): each only logs.\<close>

definition handler_log :: "string \<Rightarrow> exn option \<Rightarrow> log" where
  "handler_log path pend =
     (case pend of
        None \<Rightarrow> []
      | Some e \<Rightarrow>
          if e = ExpatError \<or> e = TypeError \<or> e = AttributeError
          then [LogError (''Failed to process plist file: '' @ path @ '' wrong file format?''),
                LogErrorExn e]
          else if e = IndexError
          then [LogError (''Indexing error during processing plist file '' @ path),
                LogErrorExn e, LogErrorExn e]
          else [LogError (''Error during processing reports from the plist file: '' @ path),
                LogErrorExn e, LogErrorExn e])"

text \<open>
  \<^verbatim>\<open>finally: return files, reports\<close> (lines 151 and 152). A \<^verbatim>\<open>return\<close> in a
  \<^verbatim>\<open>finally\<close> clause discards the exception in flight, whatever it is, and the
  function returns the value.
\<close>

definition finally_return :: "exn option \<Rightarrow> 'a \<Rightarrow> exn + 'a" where
  "finally_return pend v = Inr v"

text \<open>
  \<^verbatim>\<open>parse_plist(path, source_root, allow_plist_update)\<close>: what the caller gets
  (\<open>Inl\<close> would be an exception reaching the caller), the persisted bundles and the
  messages logged.
\<close>

definition parse_plist ::
  "hashfun \<Rightarrow> world \<Rightarrow> string \<Rightarrow> string option \<Rightarrow> bool
     \<Rightarrow> (exn + (pvalue \<times> report list)) \<times> world \<times> log" where
  "parse_plist gen w path source_root allow_plist_update =
     (let b = parse_body gen w path source_root allow_plist_update
      in (finally_return (pending b) (b_files b, b_reports b),
          b_world b,
          LogDebug (''Parsing plist: '' @ path) # b_log b @ handler_log path (pending b)))"

text \<open>
  The reports of the diagnostics that come before the first one on which the loop body
  raises: what a pass over the diagnostics can have collected when it stops.
\<close>

fun parsed_prefix ::
  "hashfun \<Rightarrow> string \<Rightarrow> string option \<Rightarrow> pvalue \<Rightarrow> pvalue list \<Rightarrow> report list" where
  "parsed_prefix gen path source_root file_table [] = []"
| "parsed_prefix gen path source_root file_table (diag # rest) =
     (case fst (parse_diag gen path source_root file_table diag) of
        Inl e \<Rightarrow> []
      | Inr res \<Rightarrow> fst res # parsed_prefix gen path source_root file_table rest)"

section \<open>File-exclusion filter\<close>

text \<open>A loop that collects one result per element and stops at the first exception.\<close>

fun mapE :: "('a \<Rightarrow> exn + 'b) \<Rightarrow> 'a list \<Rightarrow> exn + 'b list" where
  "mapE f [] = Inr []"
| "mapE f (x # xs) =
     (case f x of
        Inl e \<Rightarrow> Inl e
      | Inr y \<Rightarrow> (case mapE f xs of Inl e \<Rightarrow> Inl e | Inr ys \<Rightarrow> Inr (y # ys)))"

text \<open>\<^verbatim>\<open>l['file']\<close> for every \<^verbatim>\<open>l\<close> of a list of locations.\<close>

definition file_ids :: "pvalue \<Rightarrow> exn + pvalue list" where
  "file_ids locs = bindE (iterate locs) (mapE (\<lambda>l. subscript l (PStr ''file'')))"

definition fids_in_range :: "pvalue \<Rightarrow> exn + pvalue list" where
  "fids_in_range rng =
     bindE (iterate rng) (\<lambda>rs.
     bindE (mapE file_ids rs) (\<lambda>fss. Inr (concat fss)))"

definition fids_in_edge :: "pvalue \<Rightarrow> exn + pvalue list" where
  "fids_in_edge edges =
     bindE (iterate edges) (\<lambda>es.
     bindE (mapE (\<lambda>e. bindE (subscript e (PStr ''start'')) (\<lambda>start.
                      bindE (subscript e (PStr ''end'')) (\<lambda>end.
                      bindE (file_ids start) (\<lambda>a.
                      bindE (file_ids end) (\<lambda>b. Inr (a @ b)))))) es)
           (\<lambda>fss. Inr (concat fss)))"

text \<open>
  \<^verbatim>\<open>try: ... except KeyError: pass\<close> around a statement that extends a list: a
  KeyError leaves the list as it was, any other exception goes on.
\<close>

definition except_KeyError_pass :: "exn + 'a list \<Rightarrow> exn + 'a list" where
  "except_KeyError_pass r =
     (case r of Inl e \<Rightarrow> (if e = KeyError then Inr [] else Inl e) | Inr xs \<Rightarrow> Inr xs)"

text \<open>The file ids of one path element (lines 198 to 215).\<close>

definition path_fids :: "pvalue \<Rightarrow> exn + pvalue list" where
  "path_fids pe =
     bindE (except_KeyError_pass (bindE (subscript pe (PStr ''ranges'')) fids_in_range)) (\<lambda>a.
     bindE (except_KeyError_pass
              (bindE (subscript pe (PStr ''location'')) (\<lambda>loc.
               bindE (subscript loc (PStr ''file'')) (\<lambda>fid. Inr [fid])))) (\<lambda>b.
     bindE (except_KeyError_pass (bindE (subscript pe (PStr ''edges'')) fids_in_edge)) (\<lambda>c.
     Inr (a @ b @ c))))"

text \<open>
  \<^verbatim>\<open>x in file_ids_to_remove\<close>: the list holds positions of the file table, and
  membership compares with \<^verbatim>\<open>==\<close>, under which only an integer (or a boolean,
  which is one) equals a position.
\<close>

definition in_file_ids :: "pvalue \<Rightarrow> nat list \<Rightarrow> bool" where
  "in_file_ids v ids = (case as_index v of Some i \<Rightarrow> i \<in> set (map int ids) | None \<Rightarrow> False)"

text \<open>
  \<^verbatim>\<open>fids_in_path(report_data, file_ids_to_remove)\<close>, with its loop over the
  diagnostics as a recursion that carries \<^verbatim>\<open>all_fids\<close> and
  \<^verbatim>\<open>kept_diagnostics\<close>.
\<close>

fun fids_loop ::
  "nat list \<Rightarrow> pvalue list \<Rightarrow> pvalue list \<times> pvalue list \<Rightarrow> exn + (pvalue list \<times> pvalue list)" where
  "fids_loop ids [] acc = Inr acc"
| "fids_loop ids (diag # rest) acc =
     (case bindE (subscript diag (PStr ''location'')) (\<lambda>loc. subscript loc (PStr ''file'')) of
        Inl e \<Rightarrow> Inl e
      | Inr fid \<Rightarrow>
          if in_file_ids fid ids then fids_loop ids rest acc
          else (case bindE (bindE (subscript diag (PStr ''path'')) iterate)
                       (\<lambda>pes. bindE (mapE path_fids pes) (\<lambda>fss. Inr (concat fss))) of
                  Inl e \<Rightarrow> Inl e
                | Inr fs \<Rightarrow> fids_loop ids rest (fst acc @ fs, snd acc @ [diag])))"

definition fids_in_path :: "pvalue \<Rightarrow> nat list \<Rightarrow> exn + (pvalue list \<times> pvalue list)" where
  "fids_in_path report_data file_ids_to_remove =
     bindE (bindE (subscript report_data (PStr ''diagnostics'')) iterate)
       (\<lambda>diags. fids_loop file_ids_to_remove diags ([], []))"

text \<open>
  \<^verbatim>\<open>remove_report_from_plist(plist_content, skip_handler)\<close>. The text of a bundle is
  represented by what \<^verbatim>\<open>plistlib.readPlistFromString\<close> makes of it, and the text
  that \<^verbatim>\<open>writePlistToString\<close> produces by the value written. The skip handler is
  its predicate \<^verbatim>\<open>should_skip\<close>.
\<close>

definition file_ids_to_remove_of :: "(pvalue \<Rightarrow> bool) \<Rightarrow> pvalue list \<Rightarrow> nat list" where
  "file_ids_to_remove_of should_skip fs =
     map fst (filter (\<lambda>p. should_skip (snd p)) (enumerate 0 fs))"

definition remove_report_from_plist :: "fcontent \<Rightarrow> (pvalue \<Rightarrow> bool) \<Rightarrow> exn + fcontent" where
  "remove_report_from_plist plist_content should_skip =
     (case plist_content of
        Unreadable e \<Rightarrow>
          if e = ExpatError \<or> e = TypeError \<or> e = AttributeError then Inr plist_content
          else Inl e
      | Content report_data \<Rightarrow>
          (case bindE (bindE (subscript report_data (PStr ''files'')) iterate) (\<lambda>fs.
                bindE (fids_in_path report_data (file_ids_to_remove_of should_skip fs))
                  (\<lambda>res. Inr (set_item report_data ''diagnostics'' (PList (snd res))))) of
             Inl e \<Rightarrow> (if e = KeyError then Inr plist_content else Inl e)
           | Inr new_data \<Rightarrow> Inr (Content new_data)))"

text \<open>
  The shape of a bundle as the analyzer writes it: a dictionary with a list of files and a
  list of diagnostics; a diagnostic is a dictionary whose location names a position of the
  file table and whose path is a list of steps; in a step, the ranges are a list of lists
  of locations, the location is a dictionary, and an edge holds two lists of locations.
\<close>

fun is_dict :: "pvalue \<Rightarrow> bool" where
  "is_dict (PDict al) = True"
| "is_dict _ = False"

definition wf_locs :: "pvalue \<Rightarrow> bool" where
  "wf_locs v = (case v of PList ls \<Rightarrow> list_all is_dict ls | _ \<Rightarrow> False)"

definition wf_ranges :: "pvalue \<Rightarrow> bool" where
  "wf_ranges v = (case v of PList rs \<Rightarrow> list_all wf_locs rs | _ \<Rightarrow> False)"

definition wf_edge :: "pvalue \<Rightarrow> bool" where
  "wf_edge e =
     (case e of
        PDict al \<Rightarrow>
          (case map_of al ''start'' of None \<Rightarrow> True | Some v \<Rightarrow> wf_locs v)
          \<and> (case map_of al ''end'' of None \<Rightarrow> True | Some v \<Rightarrow> wf_locs v)
      | _ \<Rightarrow> False)"

definition wf_edges :: "pvalue \<Rightarrow> bool" where
  "wf_edges v = (case v of PList es \<Rightarrow> list_all wf_edge es | _ \<Rightarrow> False)"

definition wf_step :: "pvalue \<Rightarrow> bool" where
  "wf_step pe =
     (case pe of
        PDict al \<Rightarrow>
          (case map_of al ''ranges'' of None \<Rightarrow> True | Some v \<Rightarrow> wf_ranges v)
          \<and> (case map_of al ''location'' of None \<Rightarrow> True | Some v \<Rightarrow> is_dict v)
          \<and> (case map_of al ''edges'' of None \<Rightarrow> True | Some v \<Rightarrow> wf_edges v)
      | _ \<Rightarrow> False)"

definition location_file :: "pvalue \<Rightarrow> pvalue option" where
  "location_file diag =
     (case diag of
        PDict al \<Rightarrow>
          (case map_of al ''location'' of
             Some (PDict loc) \<Rightarrow> map_of loc ''file''
           | _ \<Rightarrow> None)
      | _ \<Rightarrow> None)"

definition wf_diag :: "nat \<Rightarrow> pvalue \<Rightarrow> bool" where
  "wf_diag n diag =
     ((case location_file diag of
         Some (PInt i) \<Rightarrow> 0 \<le> i \<and> i < int n
       | _ \<Rightarrow> False)
      \<and> (case diag of
            PDict al \<Rightarrow>
              (case map_of al ''path'' of Some (PList pes) \<Rightarrow> list_all wf_step pes | _ \<Rightarrow> False)
          | _ \<Rightarrow> False))"

definition wf_bundle :: "pvalue list \<Rightarrow> pvalue list \<Rightarrow> (string \<times> pvalue) list \<Rightarrow> bool" where
  "wf_bundle fs ds al =
     (map_of al ''files'' = Some (PList fs) \<and> map_of al ''diagnostics'' = Some (PList ds)
      \<and> list_all (wf_diag (length fs)) ds)"

text \<open>
  The file that the diagnostic's own \<^verbatim>\<open>location\<close> entry names (what line 192 reads,
  \<^verbatim>\<open>diag['location']['file']\<close>) satisfies the exclusion predicate.
\<close>

definition location_excluded :: "(pvalue \<Rightarrow> bool) \<Rightarrow> pvalue list \<Rightarrow> pvalue \<Rightarrow> bool" where
  "location_excluded should_skip fs diag =
     (case primary_file (PList fs) diag of Inl e \<Rightarrow> False | Inr f \<Rightarrow> should_skip f)"

text \<open>
  The primary location of a diagnostic in the words of the design's glossary: the last
  step of kind \<^verbatim>\<open>event\<close> of its path; \<open>last_event_file\<close> is the entry of the file
  table that this step's location names.
\<close>

definition last_event_file :: "pvalue list \<Rightarrow> pvalue \<Rightarrow> exn + pvalue" where
  "last_event_file fs diag =
     bindE (bindE (subscript diag (PStr ''path'')) iterate) (\<lambda>steps.
     bindE (seq_index (filter (\<lambda>s. get_method s ''kind'' = Inr (PStr ''event'')) steps) (- 1))
       (primary_file (PList fs)))"

text \<open>A result that is a value or, if an exception, a KeyError.\<close>

definition only_KeyError :: "exn + 'a \<Rightarrow> bool" where
  "only_KeyError r = (case r of Inl e \<Rightarrow> e = KeyError | Inr v \<Rightarrow> True)"

section \<open>Suppression store\<close>

text \<open>
  \<^verbatim>\<open>GenericSuppressHandler\<close>. A suppression record is a triple of hash, file name
  and comment. The backing file is represented by its text; the two functions of
  \<^verbatim>\<open>suppress_file_handler\<close> that read and extend it are parameters.
\<close>

type_synonym suppression = "string \<times> string \<times> string"

record handler =
  suppress_info :: "suppression list"
  allow_write :: bool
  have_memory_backend :: bool
  suppress_file :: string

record file_handler =
  get_suppress_data :: "string \<Rightarrow> suppression list"
  write_to_suppress_file :: "string \<Rightarrow> string \<Rightarrow> string \<Rightarrow> string \<Rightarrow> string \<times> bool"

text \<open>
  \<^verbatim>\<open>get_suppressed(bug)\<close>: the list comprehension keeps the records that match, and
  \<^verbatim>\<open>any\<close> asks whether one of the kept records is true as a condition, which a
  tuple of three components always is. The \<^verbatim>\<open>and\<close> evaluates the base name only
  for a record whose hash matches.
\<close>

definition py_basename :: "pvalue \<Rightarrow> exn + string" where
  "py_basename v = (case v of PStr p \<Rightarrow> Inr (basename p) | _ \<Rightarrow> Inl AttributeError)"

definition suppress_matches :: "pvalue \<Rightarrow> suppression \<Rightarrow> exn + bool" where
  "suppress_matches bug suppress =
     bindE (subscript bug (PStr ''hash_value'')) (\<lambda>hv.
       if PStr (fst suppress) = hv
       then bindE (subscript bug (PStr ''file_path'')) (\<lambda>fp.
            bindE (py_basename fp) (\<lambda>bn. Inr (fst (snd suppress) = bn)))
       else Inr False)"

fun filterE :: "('a \<Rightarrow> exn + bool) \<Rightarrow> 'a list \<Rightarrow> exn + 'a list" where
  "filterE f [] = Inr []"
| "filterE f (x # xs) =
     (case f x of
        Inl e \<Rightarrow> Inl e
      | Inr b \<Rightarrow> (case filterE f xs of Inl e \<Rightarrow> Inl e
                  | Inr ys \<Rightarrow> Inr (if b then x # ys else ys)))"

definition tuple3_truthy :: "suppression \<Rightarrow> bool" where
  "tuple3_truthy t = True"

definition get_suppressed :: "handler \<Rightarrow> pvalue \<Rightarrow> exn + bool" where
  "get_suppressed self bug =
     bindE (filterE (suppress_matches bug) (suppress_info self))
       (\<lambda>kept. Inr (list_ex tuple3_truthy kept))"

definition make_bug :: "pvalue \<Rightarrow> pvalue \<Rightarrow> pvalue" where
  "make_bug hash_value file_path = PDict [(''hash_value'', hash_value), (''file_path'', file_path)]"

definition revalidate_suppress_data :: "file_handler \<Rightarrow> handler \<Rightarrow> handler" where
  "revalidate_suppress_data fh self =
     (if \<not> have_memory_backend self then self
      else self\<lparr>suppress_info := get_suppress_data fh (suppress_file self)\<rparr>)"

definition store_suppress_bug_id ::
  "file_handler \<Rightarrow> handler \<Rightarrow> string \<Rightarrow> string \<Rightarrow> string \<Rightarrow> bool \<times> handler" where
  "store_suppress_bug_id fh self bug_id file_name comment =
     (if \<not> allow_write self then (True, self)
      else (let res = write_to_suppress_file fh (suppress_file self) bug_id file_name comment
            in (snd res, revalidate_suppress_data fh (self\<lparr>suppress_file := fst res\<rparr>))))"

section \<open>Formatter\<close>

text \<open>Decimal numerals, and \<^verbatim>\<open>%Nd\<close>: right-justified in a field of N characters.\<close>

fun dec_of_nat :: "nat \<Rightarrow> string" where
  "dec_of_nat n =
     (if n < 10 then [''0123456789'' ! n]
      else dec_of_nat (n div 10) @ [''0123456789'' ! (n mod 10)])"

declare dec_of_nat.simps [simp del]

definition dec_of_int :: "int \<Rightarrow> string" where
  "dec_of_int i = (if i < 0 then CHR ''-'' # dec_of_nat (nat (- i)) else dec_of_nat (nat i))"

definition rjust :: "nat \<Rightarrow> string \<Rightarrow> string" where
  "rjust w s = replicate (w - length s) CHR '' '' @ s"

text \<open>
  \<^verbatim>\<open>'%d' % x\<close> needs a number. \<^verbatim>\<open>'%s' % x\<close> takes anything; what it prints for
  a list or a dictionary is the parameter \<open>repr\<close>.
\<close>

definition fmt_d :: "pvalue \<Rightarrow> exn + string" where
  "fmt_d v = (case as_index v of Some i \<Rightarrow> Inr (dec_of_int i) | None \<Rightarrow> Inl TypeError)"

definition fmt_s :: "(pvalue \<Rightarrow> string) \<Rightarrow> pvalue \<Rightarrow> string" where
  "fmt_s repr v =
     (case v of
        PStr s \<Rightarrow> s
      | PInt i \<Rightarrow> dec_of_int i
      | PBool b \<Rightarrow> (if b then ''True'' else ''False'')
      | PNone \<Rightarrow> ''None''
      | _ \<Rightarrow> repr v)"

text \<open>
  What the formatter needs from outside the files under study: the line reader
  \<^verbatim>\<open>util.get_line\<close>, the inline suppression detector
  (\<^verbatim>\<open>SourceSuppressHandler(...).get_suppressed()\<close>, which yields nothing or a triple),
  the suppression file functions and the printing of containers.
\<close>

record collab =
  get_line :: "pvalue \<Rightarrow> pvalue \<Rightarrow> string"
  source_suppressed :: "pvalue \<Rightarrow> pvalue \<Rightarrow> pvalue \<Rightarrow> pvalue \<Rightarrow> exn + suppression option"
  file_handler_of :: file_handler
  repr_of :: "pvalue \<Rightarrow> string"

record formatter =
  severity_map :: "(string \<times> string) list"
  print_steps :: bool
  suppress_handler :: "handler option"
  skiplist_handler :: "(pvalue \<Rightarrow> bool) option"

text \<open>\<^verbatim>\<open>line[0:k]\<close>: a negative end counts from the end of the line.\<close>

definition slice_to :: "string \<Rightarrow> int \<Rightarrow> string" where
  "slice_to line k = (if 0 \<le> k then take (nat k) line else take (length line - nat (- k)) line)"

text \<open>\<^verbatim>\<open>line.replace('\t', '  ')\<close>.\<close>

definition widen_tabs :: "string \<Rightarrow> string" where
  "widen_tabs line = concat (map (\<lambda>c. if c = CHR 0x09 then ''  '' else [c]) line)"

definition format_location :: "collab \<Rightarrow> pvalue \<Rightarrow> pvalue \<Rightarrow> exn + string" where
  "format_location col event source_file =
     bindE (subscript event (PStr ''location'')) (\<lambda>loc.
     bindE (subscript loc (PStr ''line'')) (\<lambda>ln.
       (let line = get_line col source_file ln in
        if line = [] then Inr line
        else bindE (subscript loc (PStr ''col'')) (\<lambda>c.
               (case as_index c of
                  None \<Rightarrow> Inl TypeError
                | Some ci \<Rightarrow>
                    (let marker_line = slice_to line (ci - 1);
                         marker = replicate (length marker_line
                                             + length (filter (\<lambda>ch. ch = CHR 0x09) marker_line))
                                    CHR '' ''
                     in Inr (widen_tabs line @ marker @ ''^'')))))))"

definition format_bug_event ::
  "collab \<Rightarrow> pvalue \<Rightarrow> string \<Rightarrow> pvalue \<Rightarrow> pvalue \<Rightarrow> exn + string" where
  "format_bug_event col name severity event source_file =
     bindE (subscript event (PStr ''location'')) (\<lambda>loc.
     bindE (py_basename source_file) (\<lambda>fname.
     bindE (subscript loc (PStr ''line'')) (\<lambda>ln.
     bindE (subscript loc (PStr ''col'')) (\<lambda>c.
     bindE (subscript event (PStr ''message'')) (\<lambda>msg.
     bindE (fmt_d ln) (\<lambda>lns.
     bindE (fmt_d c) (\<lambda>cs.
       if truthy name
       then Inr (''['' @ severity @ ''] '' @ fname @ '':'' @ lns @ '':'' @ cs @ '': ''
                 @ fmt_s (repr_of col) msg @ '' ['' @ fmt_s (repr_of col) name @ '']'')
       else Inr (fname @ '':'' @ lns @ '':'' @ cs @ '': '' @ fmt_s (repr_of col) msg))))))))"

text \<open>
  The state of \<^verbatim>\<open>__write_bugs\<close>: the three statistics, the counter of rendered
  findings, what has been written to the output (one entry per \<^verbatim>\<open>write\<close> call)
  and the suppression handler of the formatter, which a stored inline suppression changes.
\<close>

record wstate =
  severity_stats :: "(string \<times> nat) list"
  file_stats :: "(pvalue \<times> nat) list"
  report_count :: "(string \<times> nat) list"
  non_suppressed :: nat
  "output" :: "string list"
  handler_now :: "handler option"

datatype verdict = Dropped | Rendered

text \<open>\<^verbatim>\<open>d[k] += 1\<close> on a \<^verbatim>\<open>defaultdict(int)\<close>.\<close>

definition bump :: "'k \<Rightarrow> ('k \<times> nat) list \<Rightarrow> ('k \<times> nat) list" where
  "bump k al = dict_set k (case map_of al k of None \<Rightarrow> 1 | Some c \<Rightarrow> c + 1) al"

text \<open>
  A dictionary key must be hashable, which a list or a dictionary is not; and
  \<^verbatim>\<open>True\<close> and \<^verbatim>\<open>1\<close> are one key, kept here as the integer.
\<close>

definition dict_key :: "pvalue \<Rightarrow> exn + pvalue" where
  "dict_key v =
     (case v of
        PList _ \<Rightarrow> Inl TypeError
      | PDict _ \<Rightarrow> Inl TypeError
      | PBool b \<Rightarrow> Inr (PInt (if b then 1 else 0))
      | _ \<Rightarrow> Inr v)"

text \<open>\<^verbatim>\<open>self.__severity_map.get(checker_name, 'UNSPECIFIED')\<close>.\<close>

definition severity_of :: "formatter \<Rightarrow> pvalue \<Rightarrow> exn + string" where
  "severity_of self checker_name =
     (case checker_name of
        PStr c \<Rightarrow> Inr (case map_of (severity_map self) c of Some v \<Rightarrow> v | None \<Rightarrow> ''UNSPECIFIED'')
      | PList _ \<Rightarrow> Inl TypeError
      | PDict _ \<Rightarrow> Inl TypeError
      | _ \<Rightarrow> Inr ''UNSPECIFIED'')"

text \<open>Lines 353 and 354: the event steps of the path and the file of the last of them.\<close>

definition is_event :: "pvalue \<Rightarrow> exn + bool" where
  "is_event i = bindE (get_method i ''kind'') (\<lambda>k. Inr (k = PStr ''event''))"

definition display_file :: "pvalue \<Rightarrow> report \<Rightarrow> exn + (pvalue list \<times> pvalue)" where
  "display_file file_table report =
     bindE (filterE is_event (bug_path report)) (\<lambda>events.
     bindE (seq_index events (- 1)) (\<lambda>last_event.
     bindE (primary_file file_table last_event) (\<lambda>f_path. Inr (events, f_path))))"

text \<open>
  Modelled from the spec: the class \<^verbatim>\<open>Report\<close> is declared in
  \<^verbatim>\<open>libcodechecker/report.py\<close>, which is not among the files under study. The data
  model gives a diagnostic record its fields (main section, path, file table) and no
  operation, so a report object has no addition, and \<^verbatim>\<open>report + s\<close> for a string
  \<^verbatim>\<open>s\<close> raises TypeError.
\<close>

definition report_plus :: "report \<Rightarrow> string \<Rightarrow> exn + string" where
  "report_plus report s = Inl TypeError"

text \<open>
  Lines 355 to 358: the exclusion check. The argument of the debug message at line 357 is
  evaluated before the call, whatever the log level: the report plus a string, plus the
  path, which must be a string. (The message at line 365 is built with
  \<^verbatim>\<open>format\<close>, which takes any object.)
\<close>

definition is_skipped :: "formatter \<Rightarrow> report \<Rightarrow> pvalue \<Rightarrow> exn + bool" where
  "is_skipped self report f_path =
     (case skiplist_handler self of
        None \<Rightarrow> Inr False
      | Some should_skip \<Rightarrow>
          if should_skip f_path
          then bindE (report_plus report '' is skipped (in '') (\<lambda>m.
                 case f_path of PStr p \<Rightarrow> Inr True | _ \<Rightarrow> Inl TypeError)
          else Inr False)"

text \<open>Lines 359 to 366: the check against the suppression store.\<close>

definition is_stored_suppressed :: "handler option \<Rightarrow> report \<Rightarrow> pvalue \<Rightarrow> exn + bool" where
  "is_stored_suppressed h report f_path =
     bindE (subscript (main report) (PStr hash_key)) (\<lambda>hash_value.
       case h of
         None \<Rightarrow> Inr False
       | Some sh \<Rightarrow> get_suppressed sh (make_bug hash_value f_path))"

text \<open>Lines 368 to 372: the last step of the path and what is read from it.\<close>

definition last_step ::
  "pvalue \<Rightarrow> report \<Rightarrow> exn + (pvalue \<times> pvalue \<times> pvalue \<times> pvalue \<times> pvalue)" where
  "last_step file_table report =
     bindE (seq_index (bug_path report) (- 1)) (\<lambda>last_report_event.
     bindE (primary_file file_table last_report_event) (\<lambda>source_file.
     bindE (bindE (subscript last_report_event (PStr ''location''))
              (\<lambda>loc. subscript loc (PStr ''line''))) (\<lambda>report_line.
     bindE (subscript (main report) (PStr hash_key)) (\<lambda>report_hash.
     bindE (subscript (main report) (PStr ''check_name'')) (\<lambda>checker_name.
       Inr (last_report_event, source_file, report_line, report_hash, checker_name))))))"

text \<open>
  Lines 407 to 414: the numbered steps. \<^verbatim>\<open>index_format\<close> is
  \<^verbatim>\<open>'    %Nd, '\<close> for the width N computed at lines 346 to 349.
\<close>

definition index_format :: "nat \<Rightarrow> nat \<Rightarrow> string" where
  "index_format width k = ''    '' @ rjust width (dec_of_nat k) @ '', ''"

fun write_steps ::
  "collab \<Rightarrow> pvalue \<Rightarrow> nat \<Rightarrow> nat \<Rightarrow> pvalue list \<Rightarrow> string list \<Rightarrow> exn option \<times> string list" where
  "write_steps col file_table width index [] out = (None, out)"
| "write_steps col file_table width index (event # rest) out =
     (let out1 = out @ [index_format width (index + 1)] in
      case primary_file file_table event of
        Inl e \<Rightarrow> (Some e, out1)
      | Inr source_file \<Rightarrow>
          (case format_bug_event col PNone [] event source_file of
             Inl e \<Rightarrow> (Some e, out1)
           | Inr text \<Rightarrow>
               write_steps col file_table width (index + 1) rest
                 (out1 @ [text, [CHR 0x0A]])))"

text \<open>Lines 404 to 406 and the loop: what step-printing adds for one finding.\<close>

definition print_steps_of ::
  "collab \<Rightarrow> pvalue \<Rightarrow> nat \<Rightarrow> pvalue \<Rightarrow> pvalue list \<Rightarrow> string list \<Rightarrow> exn option \<times> string list" where
  "print_steps_of col file_table width report_hash events out =
     (case report_hash of
        PStr h \<Rightarrow>
          write_steps col file_table width 0 events
            (out @ [''  Report hash: '' @ h @ [CHR 0x0A], ''  Steps:'' @ [CHR 0x0A]])
      | _ \<Rightarrow> (Some TypeError, out))"

text \<open>Lines 389 to 417: counting and rendering a finding that nothing has dropped.\<close>

definition count_and_render ::
  "formatter \<Rightarrow> collab \<Rightarrow> pvalue \<Rightarrow> nat \<Rightarrow> pvalue list \<Rightarrow> pvalue
     \<Rightarrow> (pvalue \<times> pvalue \<times> pvalue \<times> pvalue \<times> pvalue) \<Rightarrow> wstate \<Rightarrow> (exn + verdict) \<times> wstate" where
  "count_and_render self col file_table width events f_path ls st =
     (case ls of (last_report_event, source_file, report_line, report_hash, checker_name) \<Rightarrow>
      (case dict_key f_path of
         Inl e \<Rightarrow> (Inl e, st)
       | Inr fk \<Rightarrow>
          (let st1 = st\<lparr>file_stats := bump fk (file_stats st)\<rparr> in
           case severity_of self checker_name of
             Inl e \<Rightarrow> (Inl e, st1)
           | Inr severity \<Rightarrow>
              (let st2 = st1\<lparr>severity_stats := bump severity (severity_stats st1),
                             report_count := bump ''report_count'' (report_count st1)\<rparr> in
               case format_bug_event col checker_name severity last_report_event source_file of
                 Inl e \<Rightarrow> (Inl e, st2)
               | Inr header \<Rightarrow>
                  (let st3 = st2\<lparr>output := output st2 @ [header, [CHR 0x0A]]\<rparr> in
                   case format_location col last_report_event source_file of
                     Inl e \<Rightarrow> (Inl e, st3)
                   | Inr context \<Rightarrow>
                      (let st4 = st3\<lparr>output := output st3 @ [context, [CHR 0x0A]]\<rparr> in
                       case (if print_steps self
                             then print_steps_of col file_table width report_hash events
                                    (output st4)
                             else (None, output st4)) of
                         (Some e, out) \<Rightarrow> (Inl e, st4\<lparr>output := out\<rparr>)
                       | (None, out) \<Rightarrow>
                           (Inr Rendered,
                            st4\<lparr>output := out @ [[CHR 0x0A]],
                                non_suppressed := non_suppressed st4 + 1\<rparr>)))))))"

text \<open>The body of the loop over the reports (lines 353 to 417) for one report.\<close>

definition write_bug ::
  "formatter \<Rightarrow> collab \<Rightarrow> pvalue \<Rightarrow> nat \<Rightarrow> report \<Rightarrow> wstate \<Rightarrow> (exn + verdict) \<times> wstate" where
  "write_bug self col file_table width report st =
     (case display_file file_table report of
        Inl e \<Rightarrow> (Inl e, st)
      | Inr ef \<Rightarrow>
         (case is_skipped self report (snd ef) of
            Inl e \<Rightarrow> (Inl e, st)
          | Inr skip \<Rightarrow>
             if skip then (Inr Dropped, st)
             else
              (case is_stored_suppressed (handler_now st) report (snd ef) of
                 Inl e \<Rightarrow> (Inl e, st)
               | Inr suppressed \<Rightarrow>
                  if suppressed then (Inr Dropped, st)
                  else
                   (case last_step file_table report of
                      Inl e \<Rightarrow> (Inl e, st)
                    | Inr ls \<Rightarrow>
                       (case ls of (last_report_event, source_file, report_line, report_hash,
                                    checker_name) \<Rightarrow>
                        (case source_suppressed col source_file report_line report_hash
                                checker_name of
                           Inl e \<Rightarrow> (Inl e, st)
                         | Inr (Some suppress_data) \<Rightarrow>
                             (Inr Dropped,
                              st\<lparr>handler_now :=
                                   map_option
                                     (\<lambda>sh. snd (store_suppress_bug_id (file_handler_of col) sh
                                                  (fst suppress_data) (fst (snd suppress_data))
                                                  (snd (snd suppress_data))))
                                     (handler_now st)\<rparr>)
                         | Inr None \<Rightarrow>
                             count_and_render self col file_table width (fst ef) (snd ef)
                               ls st))))))"

fun write_loop ::
  "formatter \<Rightarrow> collab \<Rightarrow> pvalue \<Rightarrow> nat \<Rightarrow> report list \<Rightarrow> wstate \<Rightarrow> exn option \<times> wstate" where
  "write_loop self col file_table width [] st = (None, st)"
| "write_loop self col file_table width (report # rest) st =
     (case write_bug self col file_table width report st of
        (Inl e, st') \<Rightarrow> (Some e, st')
      | (Inr v, st') \<Rightarrow> write_loop self col file_table width rest st')"

text \<open>
  \<^verbatim>\<open>__write_bugs\<close>. Lines 346 to 349 take the width of the index field from the
  number of reports: \<^verbatim>\<open>floor(log10(n)) + 1\<close> is the number of decimal digits of
  \<^verbatim>\<open>n\<close>. The statistics reach \<^verbatim>\<open>report_stats\<close> only when the loop has ended
  without an exception.
\<close>

definition basefile_print :: "string option \<Rightarrow> string" where
  "basefile_print analyzed_source_file =
     (case analyzed_source_file of
        None \<Rightarrow> []
      | Some f \<Rightarrow> if f \<noteq> [] \<and> length f > 0 then '' '' @ basename f else [])"

definition summary_line :: "nat \<Rightarrow> string option \<Rightarrow> string" where
  "summary_line n analyzed_source_file =
     (if n = 0
      then ''Found no defects while analyzing'' @ basefile_print analyzed_source_file @ [CHR 0x0A]
      else ''Found '' @ dec_of_nat n @ '' defect(s) while analyzing''
           @ basefile_print analyzed_source_file @ [CHR 0x0A, CHR 0x0A])"

definition initial_wstate :: "formatter \<Rightarrow> string list \<Rightarrow> wstate" where
  "initial_wstate self out =
     \<lparr>severity_stats = [], file_stats = [], report_count = [], non_suppressed = 0,
      output = out, handler_now = suppress_handler self\<rparr>"

definition write_bugs ::
  "formatter \<Rightarrow> collab \<Rightarrow> string list \<Rightarrow> report list \<Rightarrow> pvalue \<Rightarrow> string option
     \<Rightarrow> exn option \<times> wstate" where
  "write_bugs self col out reps file_table analyzed_source_file =
     (case write_loop self col file_table (length (dec_of_nat (length reps))) reps
             (initial_wstate self out) of
        (Some e, st) \<Rightarrow> (Some e, st)
      | (None, st) \<Rightarrow>
          (None, st\<lparr>output := output st @ [summary_line (non_suppressed st) analyzed_source_file]\<rparr>))"

text \<open>
  \<^verbatim>\<open>parse_and_write\<close>: it returns the number 1 when \<^verbatim>\<open>parse_plist\<close> raises and
  the statistics otherwise; an exception of \<^verbatim>\<open>__write_bugs\<close> goes to the caller.
\<close>

record report_stats =
  stats_severity :: "(string \<times> nat) list"
  stats_files :: "(pvalue \<times> nat) list"
  stats_reports :: "(string \<times> nat) list"

datatype returned = ReturnedInt int | ReturnedStats report_stats

definition parse_and_write ::
  "formatter \<Rightarrow> collab \<Rightarrow> hashfun \<Rightarrow> world \<Rightarrow> string \<Rightarrow> string option \<Rightarrow> string list
     \<Rightarrow> (exn + returned) \<times> string list \<times> world" where
  "parse_and_write self col gen w plist_file analyzed_source_file out =
     (case parse_plist gen w plist_file None True of
        (Inl ex, w', lg) \<Rightarrow> (Inr (ReturnedInt 1), out, w')
      | (Inr fr, w', lg) \<Rightarrow>
          (case write_bugs self col out (snd fr) (fst fr) analyzed_source_file of
             (Some e, st) \<Rightarrow> (Inl e, output st, w')
           | (None, st) \<Rightarrow>
               (Inr (ReturnedStats \<lparr>stats_severity = severity_stats st,
                                    stats_files = file_stats st,
                                    stats_reports = report_count st\<rparr>),
                output st, w')))"

text \<open>
  The verdicts of a pass, report by report, up to the first exception; and the findings
  that a pass renders.
\<close>

fun verdicts ::
  "formatter \<Rightarrow> collab \<Rightarrow> pvalue \<Rightarrow> nat \<Rightarrow> report list \<Rightarrow> wstate \<Rightarrow> verdict list" where
  "verdicts self col file_table width [] st = []"
| "verdicts self col file_table width (report # rest) st =
     (case write_bug self col file_table width report st of
        (Inl e, st') \<Rightarrow> []
      | (Inr v, st') \<Rightarrow> v # verdicts self col file_table width rest st')"

definition total :: "('k \<times> nat) list \<Rightarrow> nat" where
  "total al = sum_list (map snd al)"

text \<open>
  \<^verbatim>\<open>report_count["report_count"]\<close> read from the \<^verbatim>\<open>defaultdict(int)\<close>: the
  aggregate count, 0 while the key is missing. And the number of findings that a list of
  verdicts counts as rendered.
\<close>

definition aggregate_count :: "(string \<times> nat) list \<Rightarrow> nat" where
  "aggregate_count al = (case map_of al ''report_count'' of None \<Rightarrow> 0 | Some c \<Rightarrow> c)"

definition rendered_count :: "verdict list \<Rightarrow> nat" where
  "rendered_count vs = length (filter (\<lambda>v. v = Rendered) vs)"

text \<open>
  A diagnostic without the identity-hash key, and the identity hash that a report carries
  (read as the formatter reads it, line 359).
\<close>

definition lacks_hash :: "pvalue \<Rightarrow> bool" where
  "lacks_hash d = (case d of PDict al \<Rightarrow> map_of al hash_key = None | _ \<Rightarrow> False)"

definition hash_of :: "report \<Rightarrow> exn + pvalue" where
  "hash_of r = subscript (main r) (PStr hash_key)"

section \<open>Example bundles\<close>

text \<open>
  A diagnostic at position \<open>i\<close> of the file table with a path of the given steps, with
  and without an identity hash; a path step; and a world that holds one bundle under
  every path.
\<close>

definition diag_at :: "int \<Rightarrow> pvalue list \<Rightarrow> pvalue" where
  "diag_at i steps =
     PDict [(''check_name'', PStr ''core.Null''), (hash_key, PStr ''h0''),
            (''location'', PDict [(''file'', PInt i)]), (''path'', PList steps)]"

definition old_diag_at :: "int \<Rightarrow> pvalue list \<Rightarrow> pvalue" where
  "old_diag_at i steps =
     PDict [(''check_name'', PStr ''core.Null''),
            (''location'', PDict [(''file'', PInt i)]), (''path'', PList steps)]"

definition step_at :: "string \<Rightarrow> int \<Rightarrow> pvalue" where
  "step_at kind i =
     PDict [(''kind'', PStr kind),
            (''location'', PDict [(''file'', PInt i), (''line'', PInt 3), (''col'', PInt 2)]),
            (''message'', PStr ''m'')]"

definition bundle_of :: "pvalue list \<Rightarrow> pvalue list \<Rightarrow> pvalue" where
  "bundle_of fs ds = PDict [(''files'', PList fs), (''diagnostics'', PList ds)]"

definition world_of :: "fcontent \<Rightarrow> world" where
  "world_of c = \<lparr>store = (\<lambda>p. c), write_fails = (\<lambda>p. False)\<rparr>"

definition const_hash :: hashfun where
  "const_hash p f c = Inr ''g1''"

text \<open>
  Collaborators for the examples: no source line can be read, no source line carries a
  suppression marker and the suppression file is never changed. A formatter with a
  suppression store that holds one record, and a report with a given hash and path.
\<close>

definition example_collab :: collab where
  "example_collab =
     \<lparr>get_line = (\<lambda>f l. []),
      source_suppressed = (\<lambda>f l h c. Inr None),
      file_handler_of = \<lparr>get_suppress_data = (\<lambda>t. []),
                         write_to_suppress_file = (\<lambda>t b f c. (t, True))\<rparr>,
      repr_of = (\<lambda>v. [])\<rparr>"

definition example_formatter :: "bool \<Rightarrow> formatter" where
  "example_formatter steps =
     \<lparr>severity_map = [(''core.Null'', ''HIGH'')],
      print_steps = steps,
      suppress_handler = Some \<lparr>suppress_info = [(''h0'', ''a.c'', [])], allow_write = False,
                               have_memory_backend = False, suppress_file = []\<rparr>,
      skiplist_handler = None\<rparr>"

definition report_of :: "string \<Rightarrow> pvalue list \<Rightarrow> pvalue \<Rightarrow> report" where
  "report_of h steps file_table =
     \<lparr>main = PDict [(''check_name'', PStr ''core.Null''), (hash_key, PStr h)],
      bug_path = steps, files = file_table\<rparr>"


section \<open>Properties of the parser\<close>

lemma parse_loop_reports:
  "reports (snd (parse_loop gen path sr ft ds st)) = reports st @ parsed_prefix gen path sr ft ds"
proof (induction ds arbitrary: st)
  case Nil
  show ?case by simp
next
  case (Cons d ds)
  show ?case
  proof (cases "parse_diag gen path sr ft d")
    case (Pair res lg)
    show ?thesis
    proof (cases res)
      case (Inl e)
      with Pair show ?thesis by simp
    next
      case (Inr t)
      obtain r d' ch where t: "t = (r, d', ch)" by (cases t) auto
      show ?thesis using Pair Inr t Cons.IH by simp
    qed
  qed
qed

text \<open>
  Claim C1. Whatever the path holds, \<^verbatim>\<open>parse_plist\<close> hands its caller a pair of a
  file table and a list of reports, never an exception. When the bundle cannot be read, or
  has no \<^verbatim>\<open>files\<close> entry, the pair is the empty table and no report; once the
  file table is read the pair holds it, with no report when the diagnostics cannot be
  iterated and otherwise with the reports of the diagnostics before the first one that
  raises (all of them when none does).
\<close>

theorem parse_plist_always_returns:
  "fst (parse_plist gen w path source_root allow_plist_update) =
     Inr (case readPlist w path of
            Inl e \<Rightarrow> (PList [], [])
          | Inr plist \<Rightarrow>
              (case subscript plist (PStr ''files'') of
                 Inl e \<Rightarrow> (PList [], [])
               | Inr file_table \<Rightarrow>
                   (file_table,
                    case bindE (subscript plist (PStr ''diagnostics'')) iterate of
                      Inl e \<Rightarrow> []
                    | Inr diags \<Rightarrow> parsed_prefix gen path source_root file_table diags)))"
proof (cases "readPlist w path")
  case (Inl e)
  then show ?thesis by (simp add: parse_plist_def parse_body_def finally_return_def)
next
  case plist: (Inr plist)
  show ?thesis
  proof (cases "subscript plist (PStr ''files'')")
    case (Inl e)
    with plist show ?thesis by (simp add: parse_plist_def parse_body_def finally_return_def)
  next
    case ft: (Inr ft)
    show ?thesis
    proof (cases "bindE (subscript plist (PStr ''diagnostics'')) iterate")
      case (Inl e)
      with plist ft show ?thesis
        by (simp add: parse_plist_def parse_body_def finally_return_def)
    next
      case ds: (Inr ds)
      let ?st0 = "\<lparr>reports = [], diags_seen = [], diag_changed = False, plog = []\<rparr>"
      obtain pend st where loop: "parse_loop gen path source_root ft ds ?st0 = (pend, st)"
        by (cases "parse_loop gen path source_root ft ds ?st0") auto
      have rs: "reports st = parsed_prefix gen path source_root ft ds"
        using parse_loop_reports [of gen path source_root ft ds ?st0] loop by simp
      show ?thesis
        using plist ft ds loop rs
        by (simp add: parse_plist_def parse_body_def finally_return_def Let_def
            split: option.splits sum.splits)
    qed
  qed
qed

text \<open>
  Claim C10. An empty string in a field counts as no field. A diagnostic whose
  \<^verbatim>\<open>check_name\<close> is the empty string resolves to the checker name
  \<^verbatim>\<open>unknown\<close>, as one without the field does; and a diagnostic whose identity hash
  is the empty string gets the hash that the content-hash function computes from its path,
  the source file and its resolved checker name, as one without the field does.
\<close>

theorem empty_field_is_absent:
  "(map_of al ''check_name'' = Some (PStr []) \<or> map_of al ''check_name'' = None
      \<longrightarrow> fst (get_checker_name (PDict al) path) = Inr (PStr ''unknown''))
   \<and> ((map_of al hash_key = Some (PStr []) \<or> map_of al hash_key = None)
        \<and> map_of al ''path'' = Some p
        \<and> fst (get_checker_name (PDict al) []) = Inr cn
      \<longrightarrow> fst (get_report_hash gen (PDict al) source_file) =
            (case gen p source_file cn of Inl e \<Rightarrow> Inl e | Inr h \<Rightarrow> Inr (PStr h)))"
  by (auto simp: get_checker_name_def get_report_hash_def
      split: sum.splits prod.splits if_splits option.splits)

theorem empty_field_is_absent_witness:
  "fst (get_checker_name
          (PDict [(''check_name'', PStr []), (hash_key, PStr []), (''path'', PList [])])
          ''b.plist'')
     = Inr (PStr ''unknown'')
   \<and> fst (get_report_hash
            (\<lambda>p f c. if c = PStr ''unknown'' then Inr ''h1'' else Inl OtherError)
            (PDict [(''check_name'', PStr []), (hash_key, PStr []), (''path'', PList [])])
            (PStr ''a.c''))
     = Inr (PStr ''h1'')"
  using empty_field_is_absent
    [of "[(''check_name'', PStr []), (hash_key, PStr []), (''path'', PList [])]"
        "''b.plist''" "PList []" "PStr ''unknown''"
        "\<lambda>p f c. if c = PStr ''unknown'' then Inr ''h1'' else Inl OtherError" "PStr ''a.c''"]
  by (simp add: hash_key_def get_checker_name_def)

section \<open>Properties of the suppression store\<close>

lemma filterE_total: "filterE (\<lambda>x. Inr (P x)) xs = Inr (filter P xs)"
  by (induction xs) auto

lemma suppress_matches_strings:
  "suppress_matches (make_bug (PStr h) (PStr p)) =
     (\<lambda>s. Inr (fst s = h \<and> fst (snd s) = basename p))"
  by (auto simp: suppress_matches_def make_bug_def bindE_def py_basename_def fun_eq_iff)

lemma get_suppressed_strings:
  "get_suppressed self (make_bug (PStr h) (PStr p)) =
     Inr (\<exists>s \<in> set (suppress_info self). fst s = h \<and> fst (snd s) = basename p)"
  by (force simp: get_suppressed_def suppress_matches_strings filterE_total bindE_def
      tuple3_truthy_def list_ex_iff)

lemma basename_dir: "CHR ''/'' \<notin> set n \<Longrightarrow> basename (d @ ''/'' @ n) = n"
proof -
  assume n: "CHR ''/'' \<notin> set n"
  have "takeWhile (\<lambda>c. c \<noteq> CHR ''/'') (rev n @ CHR ''/'' # rev d) = rev n"
    using n by (auto simp: takeWhile_tail)
  then show ?thesis by (simp add: basename_def)
qed

text \<open>
  Claim C4. For a bug with hash \<open>h\<close> at file path \<open>p\<close>, \<^verbatim>\<open>get_suppressed\<close>
  returns true exactly when some stored record has the hash \<open>h\<close> and the file name
  \<open>basename p\<close>. The directory part of the path has no influence: two paths that end
  with the same file name get the same answer. So the record \<open>(H, a.c, '')\<close> suppresses
  the hash \<open>H\<close> at \<open>/x/a.c\<close> and at \<open>/y/a.c\<close>.
\<close>

theorem suppression_is_basename_scoped:
  "get_suppressed self (make_bug (PStr h) (PStr p)) =
     Inr (\<exists>s \<in> set (suppress_info self). fst s = h \<and> fst (snd s) = basename p)
   \<and> (CHR ''/'' \<notin> set n \<longrightarrow>
        get_suppressed self (make_bug (PStr h) (PStr (d1 @ ''/'' @ n))) =
        get_suppressed self (make_bug (PStr h) (PStr (d2 @ ''/'' @ n))))"
  using basename_dir [of n d1] basename_dir [of n d2]
  by (simp add: get_suppressed_strings)

theorem suppression_is_basename_scoped_witness:
  "get_suppressed \<lparr>suppress_info = [(''H'', ''a.c'', [])], allow_write = False,
                   have_memory_backend = False, suppress_file = []\<rparr>
     (make_bug (PStr ''H'') (PStr ''/x/a.c'')) = Inr True
   \<and> get_suppressed \<lparr>suppress_info = [(''H'', ''a.c'', [])], allow_write = False,
                   have_memory_backend = False, suppress_file = []\<rparr>
     (make_bug (PStr ''H'') (PStr ''/y/a.c'')) = Inr True"
  using suppression_is_basename_scoped
    [of "\<lparr>suppress_info = [(''H'', ''a.c'', [])], allow_write = False,
           have_memory_backend = False, suppress_file = []\<rparr>" "''H''" "''/x/a.c''"
        "''a.c''" "''/x''" "''/y''"]
  by (auto simp: basename_def)

section \<open>Defective diagnostics\<close>

lemma parsed_prefix_append_bad:
  assumes "\<forall>d\<in>set good. \<exists>res. fst (parse_diag gen path sr ft d) = Inr res"
      and "fst (parse_diag gen path sr ft bad) = Inl e"
  shows "parsed_prefix gen path sr ft (good @ bad # rest) = parsed_prefix gen path sr ft good
         \<and> length (parsed_prefix gen path sr ft good) = length good"
  using assms by (induction good) auto

lemma parse_loop_stops:
  assumes "\<forall>d\<in>set good. \<exists>res. fst (parse_diag gen path sr ft d) = Inr res"
      and "fst (parse_diag gen path sr ft bad) = Inl e"
  shows "fst (parse_loop gen path sr ft (good @ bad # rest) st) = Some e"
  using assms
proof (induction good arbitrary: st)
  case Nil
  then show ?case by (cases "parse_diag gen path sr ft bad") auto
next
  case (Cons d ds)
  then obtain res where "fst (parse_diag gen path sr ft d) = Inr res" by auto
  then obtain r d' ch lg where "parse_diag gen path sr ft d = (Inr (r, d', ch), lg)"
    by (cases "parse_diag gen path sr ft d"; cases res) auto
  with Cons show ?case by simp
qed

text \<open>
  Claim C9. When the diagnostics of a bundle are some that parse, then one on which the
  loop body raises (a file index outside the file table raises IndexError), then any
  others, the pass stops at the defective one: \<^verbatim>\<open>parse_plist\<close> returns the file table
  with the reports of the diagnostics before it, one report each, the handler of the
  exception writes its error messages at the end of the log, and no bundle is rewritten.
\<close>

theorem partial_record_defect:
  assumes "readPlist w path = Inr plist"
      and "subscript plist (PStr ''files'') = Inr file_table"
      and "bindE (subscript plist (PStr ''diagnostics'')) iterate = Inr (good @ bad # rest)"
      and "\<forall>d\<in>set good. \<exists>res. fst (parse_diag gen path source_root file_table d) = Inr res"
      and "fst (parse_diag gen path source_root file_table bad) = Inl e"
  shows "fst (parse_plist gen w path source_root allow_plist_update) =
           Inr (file_table, parsed_prefix gen path source_root file_table good)
         \<and> length (parsed_prefix gen path source_root file_table good) = length good
         \<and> (\<exists>before. snd (snd (parse_plist gen w path source_root allow_plist_update)) =
                       before @ handler_log path (Some e))
         \<and> (\<exists>msg. LogError msg \<in> set (handler_log path (Some e)))
         \<and> fst (snd (parse_plist gen w path source_root allow_plist_update)) = w"
proof -
  let ?st0 = "\<lparr>reports = [], diags_seen = [], diag_changed = False, plog = []\<rparr>"
  obtain pend st where loop:
    "parse_loop gen path source_root file_table (good @ bad # rest) ?st0 = (pend, st)"
    by (cases "parse_loop gen path source_root file_table (good @ bad # rest) ?st0") auto
  have pend: "pend = Some e"
    using parse_loop_stops [OF assms(4,5), of rest ?st0] loop by simp
  have body: "parse_body gen w path source_root allow_plist_update =
              \<lparr>pending = Some e, b_files = file_table, b_reports = reports st,
               b_changed = diag_changed st, b_world = w, b_log = plog st\<rparr>"
    using assms(1,2,3) loop pend by (simp add: parse_body_def)
  have 1: "fst (parse_plist gen w path source_root allow_plist_update) =
             Inr (file_table, parsed_prefix gen path source_root file_table good)"
    using parse_loop_reports [of gen path source_root file_table "good @ bad # rest" ?st0]
      loop body parsed_prefix_append_bad [OF assms(4,5), of rest]
    by (simp add: parse_plist_def finally_return_def)
  have 2: "length (parsed_prefix gen path source_root file_table good) = length good"
    using parsed_prefix_append_bad [OF assms(4,5), of rest] by simp
  have 3: "snd (snd (parse_plist gen w path source_root allow_plist_update)) =
             (LogDebug (''Parsing plist: '' @ path) # plog st) @ handler_log path (Some e)"
    using body by (simp add: parse_plist_def)
  have 4: "\<exists>msg. LogError msg \<in> set (handler_log path (Some e))"
    by (auto simp: handler_log_def)
  have 5: "fst (snd (parse_plist gen w path source_root allow_plist_update)) = w"
    using body by (simp add: parse_plist_def)
  show ?thesis using 1 2 3 4 5 by blast
qed

lemma diag_at_parses:
  "0 \<le> i \<Longrightarrow> i < int (length fs) \<Longrightarrow>
   parse_diag gen path None (PList fs) (diag_at i steps) =
     (Inr (\<lparr>main = PDict [(''check_name'', PStr ''core.Null''), (hash_key, PStr ''h0''),
                           (''location'', PDict [(''file'', PInt i)])],
            bug_path = steps, files = PList fs\<rparr>, diag_at i steps, False), [])"
  by (simp add: parse_diag_def diag_at_def get_checker_name_def get_report_hash_def
      primary_file_def bindE_def under_source_root_def seq_index_def main_section_of_def
      hash_key_def)

lemma diag_at_outside:
  "int (length fs) \<le> i \<Longrightarrow>
   parse_diag gen path None (PList fs) (diag_at i steps) = (Inl IndexError, [])"
  by (simp add: parse_diag_def diag_at_def get_checker_name_def get_report_hash_def
      primary_file_def bindE_def under_source_root_def seq_index_def main_section_of_def
      hash_key_def)

theorem partial_record_defect_witness:
  "fst (parse_plist const_hash
          (world_of (Content (bundle_of [PStr ''a.c'']
                                [diag_at 0 [], diag_at 5 [], diag_at 0 []])))
          ''x.plist'' None True) =
     Inr (PList [PStr ''a.c''],
          [\<lparr>main = PDict [(''check_name'', PStr ''core.Null''), (hash_key, PStr ''h0''),
                          (''location'', PDict [(''file'', PInt 0)])],
            bug_path = [], files = PList [PStr ''a.c'']\<rparr>])
   \<and> LogError ''Indexing error during processing plist file x.plist''
       \<in> set (snd (snd (parse_plist const_hash
          (world_of (Content (bundle_of [PStr ''a.c'']
                                [diag_at 0 [], diag_at 5 [], diag_at 0 []])))
          ''x.plist'' None True)))"
proof -
  let ?fs = "[PStr ''a.c'']"
  let ?b = "bundle_of ?fs [diag_at 0 [], diag_at 5 [], diag_at 0 []]"
  have h1: "readPlist (world_of (Content ?b)) ''x.plist'' = Inr ?b"
    by (simp add: readPlist_def world_of_def)
  have h2: "subscript ?b (PStr ''files'') = Inr (PList ?fs)"
    by (simp add: bundle_of_def)
  have h3: "bindE (subscript ?b (PStr ''diagnostics'')) iterate =
              Inr ([diag_at 0 []] @ diag_at 5 [] # [diag_at 0 []])"
    by (simp add: bundle_of_def bindE_def)
  have h4: "\<forall>d\<in>set [diag_at 0 []].
              \<exists>res. fst (parse_diag const_hash ''x.plist'' None (PList ?fs) d) = Inr res"
    by (auto simp: diag_at_parses)
  have h5: "fst (parse_diag const_hash ''x.plist'' None (PList ?fs) (diag_at 5 [])) =
              Inl IndexError"
    by (simp add: diag_at_outside)
  show ?thesis
    using partial_record_defect [OF h1 h2 h3 h4 h5, of True]
    by (auto simp: diag_at_parses handler_log_def)
qed

section \<open>Enrichment\<close>

lemma map_of_dict_set:
  "map_of (dict_set k v al) k' = (if k' = k then Some v else map_of al k')"
  by (induction al) auto

lemma hash_key_neq [simp]:
  "hash_key \<noteq> ''check_name''" "hash_key \<noteq> ''path''" "hash_key \<noteq> ''location''"
  "''check_name'' \<noteq> hash_key" "''path'' \<noteq> hash_key" "''location'' \<noteq> hash_key"
  by (simp_all add: hash_key_def)

lemma get_checker_name_enriched:
  "get_checker_name (PDict (dict_set hash_key h al)) path = get_checker_name (PDict al) path"
  by (simp add: get_checker_name_def map_of_dict_set)

lemma primary_file_enriched:
  "primary_file ft (PDict (dict_set hash_key h al)) = primary_file ft (PDict al)"
  by (simp add: primary_file_def map_of_dict_set)

lemma path_enriched:
  "subscript (PDict (dict_set hash_key h al)) (PStr ''path'') = subscript (PDict al) (PStr ''path'')"
  by (simp add: map_of_dict_set)

lemma get_report_hash_enriched:
  assumes "map_of al hash_key = None"
      and "get_report_hash gen (PDict al) fp = (Inr h, lg)"
  shows "fst (get_report_hash gen (PDict (dict_set hash_key h al)) fp) = Inr h"
  using assms
  by (auto simp: get_report_hash_def map_of_dict_set get_checker_name_enriched
      split: sum.splits prod.splits if_splits option.splits)

lemma parse_diag_enriched:
  assumes "parse_diag gen path sr ft d = (Inr (r, d', ch), lg)"
  shows "\<exists>r' lg'. parse_diag gen path sr ft d' = (Inr (r', d', False), lg')
                  \<and> hash_of r' = hash_of r
                  \<and> (lacks_hash d \<longrightarrow> ch \<and> subscript d' (PStr hash_key) = hash_of r)"
proof (cases d)
  case (PDict al)
  obtain cn lg1 where cn: "get_checker_name d path = (Inr cn, lg1)"
    using assms PDict by (auto simp: parse_diag_def split: sum.splits prod.splits)
  obtain fp where fp: "bindE (primary_file ft d) (under_source_root sr) = Inr fp"
    using assms PDict cn by (auto simp: parse_diag_def split: sum.splits prod.splits)
  obtain h lg2 where h: "get_report_hash gen d fp = (Inr h, lg2)"
    using assms PDict cn fp by (auto simp: parse_diag_def split: sum.splits prod.splits)
  have d': "d' = (if map_of al hash_key = None then PDict (dict_set hash_key h al) else d)"
    and ch: "ch = (map_of al hash_key = None)"
    and r: "main r = PDict (dict_set hash_key h (dict_set ''check_name'' cn (main_section_of al)))"
    using assms PDict cn fp h
    by (auto simp: parse_diag_def Let_def split: sum.splits prod.splits)
  obtain items where items: "bindE (subscript d' (PStr ''path'')) iterate = Inr items"
    using assms PDict cn fp h d'
    by (auto simp: parse_diag_def Let_def split: sum.splits prod.splits if_splits)
  obtain al' where al': "d' = PDict al'" and present: "map_of al' hash_key \<noteq> None"
    and same: "get_checker_name d' = get_checker_name d" "primary_file ft d' = primary_file ft d"
    using d' PDict
    by (cases "map_of al hash_key = None")
       (auto simp: map_of_dict_set get_checker_name_enriched primary_file_enriched fun_eq_iff)
  have h': "fst (get_report_hash gen d' fp) = Inr h"
    using d' PDict h get_report_hash_enriched [of al gen fp h lg2]
    by (cases "map_of al hash_key = None") auto
  then obtain lg2' where h'': "get_report_hash gen d' fp = (Inr h, lg2')"
    by (cases "get_report_hash gen d' fp") auto
  have hk: "lacks_hash d \<longrightarrow> subscript d' (PStr hash_key) = Inr h"
    using d' PDict by (simp add: lacks_hash_def map_of_dict_set)
  show ?thesis
    using al' present same h'' items cn fp r ch PDict hk
    by (auto simp: parse_diag_def Let_def hash_of_def map_of_dict_set lacks_hash_def
        split: sum.splits prod.splits)
next
qed (use assms in \<open>simp_all add: parse_diag_def\<close>)


lemma parse_loop_enriched:
  assumes "parse_loop gen path sr ft ds st = (None, st')"
  shows "\<exists>ds'. diags_seen st' = diags_seen st @ ds'
           \<and> (diag_changed st \<or> list_ex lacks_hash ds \<longrightarrow> diag_changed st')
           \<and> list_all2 (\<lambda>d' dr. lacks_hash (fst dr)
                                  \<longrightarrow> subscript d' (PStr hash_key) = hash_of (snd dr))
                 ds' (zip ds (parsed_prefix gen path sr ft ds))
           \<and> length (parsed_prefix gen path sr ft ds) = length ds
           \<and> (\<forall>st2. \<exists>st2'. parse_loop gen path sr ft ds' st2 = (None, st2')
                  \<and> diag_changed st2' = diag_changed st2
                  \<and> map hash_of (reports st2') =
                      map hash_of (reports st2) @ map hash_of (parsed_prefix gen path sr ft ds))"
  using assms
proof (induction ds arbitrary: st)
  case Nil
  then show ?case by simp
next
  case (Cons d ds)
  obtain res lg where pd: "parse_diag gen path sr ft d = (res, lg)"
    by (cases "parse_diag gen path sr ft d") auto
  from Cons.prems pd obtain r d' ch where res: "res = Inr (r, d', ch)"
    by (cases res) auto
  let ?st1 = "\<lparr>reports = reports st @ [r], diags_seen = diags_seen st @ [d'],
               diag_changed = (diag_changed st \<or> ch), plog = plog st @ lg\<rparr>"
  have rest: "parse_loop gen path sr ft ds ?st1 = (None, st')"
    using Cons.prems pd res by simp
  from Cons.IH [OF rest] obtain ds' where
    seen: "diags_seen st' = diags_seen ?st1 @ ds'"
    and changed: "diag_changed ?st1 \<or> list_ex lacks_hash ds \<longrightarrow> diag_changed st'"
    and carried: "list_all2 (\<lambda>d' dr. lacks_hash (fst dr)
                                  \<longrightarrow> subscript d' (PStr hash_key) = hash_of (snd dr))
                 ds' (zip ds (parsed_prefix gen path sr ft ds))"
    and len: "length (parsed_prefix gen path sr ft ds) = length ds"
    and again: "\<forall>st2. \<exists>st2'. parse_loop gen path sr ft ds' st2 = (None, st2')
                  \<and> diag_changed st2' = diag_changed st2
                  \<and> map hash_of (reports st2') =
                      map hash_of (reports st2) @ map hash_of (parsed_prefix gen path sr ft ds)"
    by blast
  from parse_diag_enriched [of gen path sr ft d r d' ch lg] pd res
  obtain r' lg' where pd': "parse_diag gen path sr ft d' = (Inr (r', d', False), lg')"
    and same: "hash_of r' = hash_of r"
    and lack: "lacks_hash d \<longrightarrow> ch \<and> subscript d' (PStr hash_key) = hash_of r"
    by auto
  have pp: "parsed_prefix gen path sr ft (d # ds) = r # parsed_prefix gen path sr ft ds"
    using pd res by simp
  have 1: "diags_seen st' = diags_seen st @ (d' # ds')" using seen by simp
  have 2: "diag_changed st \<or> list_ex lacks_hash (d # ds) \<longrightarrow> diag_changed st'"
    using changed lack by auto
  have 3: "list_all2 (\<lambda>d' dr. lacks_hash (fst dr)
                                  \<longrightarrow> subscript d' (PStr hash_key) = hash_of (snd dr))
                 (d' # ds') (zip (d # ds) (parsed_prefix gen path sr ft (d # ds)))"
    using carried lack pp by simp
  have 4: "length (parsed_prefix gen path sr ft (d # ds)) = length (d # ds)"
    using len pp by simp
  have 5: "\<exists>st2'. parse_loop gen path sr ft (d' # ds') st2 = (None, st2')
                  \<and> diag_changed st2' = diag_changed st2
                  \<and> map hash_of (reports st2') =
                      map hash_of (reports st2)
                      @ map hash_of (parsed_prefix gen path sr ft (d # ds))" for st2
  proof -
    let ?s = "\<lparr>reports = reports st2 @ [r'], diags_seen = diags_seen st2 @ [d'],
               diag_changed = (diag_changed st2 \<or> False), plog = plog st2 @ lg'\<rparr>"
    from again obtain st2' where
      a: "parse_loop gen path sr ft ds' ?s = (None, st2')"
      and b: "diag_changed st2' = diag_changed ?s"
      and c: "map hash_of (reports st2') =
                map hash_of (reports ?s) @ map hash_of (parsed_prefix gen path sr ft ds)"
      by blast
    have "parse_loop gen path sr ft (d' # ds') st2 = (None, st2')"
      using pd' a by simp
    moreover have "diag_changed st2' = diag_changed st2" using b by simp
    moreover have "map hash_of (reports st2') =
                      map hash_of (reports st2)
                      @ map hash_of (parsed_prefix gen path sr ft (d # ds))"
      using c pp same by simp
    ultimately show ?thesis by blast
  qed
  show ?case using 1 2 3 4 5 by blast
qed

text \<open>
  Claim C2. Take a bundle in which some diagnostic has no identity-hash key, and a first
  parse with rewriting allowed whose \<^verbatim>\<open>try\<close> block ends without an exception. Then
  the bundle stored at the path afterwards is the enriched one: same file table, and every
  diagnostic that had no hash now carries the hash of its report. A second parse of the
  stored bundle, with the same content-hash function and source root and with rewriting
  allowed or not, ends without an exception, returns the same file table and reports with
  the same identity hashes in the same order, does not set \<^verbatim>\<open>diag_changed\<close>, and
  leaves the stored bundles as they are.
\<close>

theorem enrichment_idempotent:
  assumes "store w path = Content plist"
      and "subscript plist (PStr ''diagnostics'') = Inr (PList ds)"
      and "list_ex lacks_hash ds"
      and "pending (parse_body gen w path source_root True) = None"
  shows "\<exists>ft rs1 w1 enriched ds' rs2.
           fst (parse_plist gen w path source_root True) = Inr (ft, rs1)
         \<and> fst (snd (parse_plist gen w path source_root True)) = w1
         \<and> length rs1 = length ds
         \<and> store w1 path = Content enriched
         \<and> subscript enriched (PStr ''files'') = Inr ft
         \<and> subscript enriched (PStr ''diagnostics'') = Inr (PList ds')
         \<and> list_all2 (\<lambda>d' dr. lacks_hash (fst dr)
                                \<longrightarrow> subscript d' (PStr hash_key) = hash_of (snd dr))
               ds' (zip ds rs1)
         \<and> fst (parse_plist gen w1 path source_root allow_plist_update) = Inr (ft, rs2)
         \<and> map hash_of rs2 = map hash_of rs1
         \<and> pending (parse_body gen w1 path source_root allow_plist_update) = None
         \<and> \<not> b_changed (parse_body gen w1 path source_root allow_plist_update)
         \<and> fst (snd (parse_plist gen w1 path source_root allow_plist_update)) = w1"
proof -
  let ?st0 = "\<lparr>reports = [], diags_seen = [], diag_changed = False, plog = []\<rparr>"
  obtain al where al: "plist = PDict al"
    using assms(2) by (cases plist) (auto split: option.splits if_splits)
  have rd: "readPlist w path = Inr plist"
    using assms(1) by (simp add: readPlist_def)
  obtain ft where ft: "subscript plist (PStr ''files'') = Inr ft"
    using assms(4) rd by (cases "subscript plist (PStr ''files'')") (auto simp: parse_body_def)
  have it: "bindE (subscript plist (PStr ''diagnostics'')) iterate = Inr ds"
    using assms(2) by (simp add: bindE_def)
  obtain pend st where loop: "parse_loop gen path source_root ft ds ?st0 = (pend, st)"
    by (cases "parse_loop gen path source_root ft ds ?st0") auto
  have pend: "pend = None"
    using assms(4) rd ft it loop by (cases pend) (auto simp: parse_body_def)
  from parse_loop_enriched [of gen path source_root ft ds ?st0 st] loop pend assms(3)
  obtain ds' where seen: "diags_seen st = ds'"
    and changed: "diag_changed st"
    and carried: "list_all2 (\<lambda>d' dr. lacks_hash (fst dr)
                                \<longrightarrow> subscript d' (PStr hash_key) = hash_of (snd dr))
               ds' (zip ds (parsed_prefix gen path source_root ft ds))"
    and len: "length (parsed_prefix gen path source_root ft ds) = length ds"
    and again: "\<forall>st2. \<exists>st2'. parse_loop gen path source_root ft ds' st2 = (None, st2')
                  \<and> diag_changed st2' = diag_changed st2
                  \<and> map hash_of (reports st2') =
                      map hash_of (reports st2)
                      @ map hash_of (parsed_prefix gen path source_root ft ds)"
    by auto
  have rs: "reports st = parsed_prefix gen path source_root ft ds"
    using parse_loop_reports [of gen path source_root ft ds ?st0] loop by simp
  let ?enriched = "set_item plist ''diagnostics'' (PList ds')"
  let ?w1 = "w\<lparr>store := (store w)(path := Content ?enriched)\<rparr>"
  have nofail: "\<not> write_fails w path"
    using assms(4) rd ft it loop pend changed
    by (auto simp: parse_body_def writePlist_def split: if_splits)
  have b1: "parse_body gen w path source_root True =
              \<lparr>pending = None, b_files = ft, b_reports = reports st, b_changed = True,
               b_world = ?w1, b_log = plog st\<rparr>"
    using rd ft it loop pend changed nofail seen by (simp add: parse_body_def writePlist_def)
  have e_files: "subscript ?enriched (PStr ''files'') = Inr ft"
    using ft al by (simp add: map_of_dict_set)
  have e_diags: "subscript ?enriched (PStr ''diagnostics'') = Inr (PList ds')"
    using al by (simp add: map_of_dict_set)
  have rd1: "readPlist ?w1 path = Inr ?enriched"
    by (simp add: readPlist_def)
  from again obtain st2' where
    loop2: "parse_loop gen path source_root ft ds' ?st0 = (None, st2')"
    and unchanged: "diag_changed st2' = False"
    and hashes: "map hash_of (reports st2') =
                   map hash_of (parsed_prefix gen path source_root ft ds)"
    by force
  have b2: "parse_body gen ?w1 path source_root allow_plist_update =
              \<lparr>pending = None, b_files = ft, b_reports = reports st2', b_changed = False,
               b_world = ?w1, b_log = plog st2'\<rparr>"
    using rd1 e_files e_diags loop2 unchanged by (simp add: parse_body_def bindE_def)
  have p1: "fst (parse_plist gen w path source_root True) = Inr (ft, reports st)"
    and p1w: "fst (snd (parse_plist gen w path source_root True)) = ?w1"
    using b1 by (simp_all add: parse_plist_def finally_return_def)
  have p2: "fst (parse_plist gen ?w1 path source_root allow_plist_update) =
              Inr (ft, reports st2')"
    and p2w: "fst (snd (parse_plist gen ?w1 path source_root allow_plist_update)) = ?w1"
    using b2 by (simp_all add: parse_plist_def finally_return_def)
  have stored: "store ?w1 path = Content ?enriched" by simp
  show ?thesis
    using p1 p1w len rs stored e_files e_diags carried p2 hashes b2 p2w
    by (intro exI [of _ ft] exI [of _ "reports st"] exI [of _ ?w1] exI [of _ ?enriched]
        exI [of _ ds'] exI [of _ "reports st2'"]) simp
qed

lemma old_diag_body:
  "parse_body const_hash (world_of (Content (bundle_of [PStr ''a.c''] [old_diag_at 0 []])))
     ''x.plist'' None True =
   \<lparr>pending = None, b_files = PList [PStr ''a.c''],
    b_reports = [\<lparr>main = PDict [(''check_name'', PStr ''core.Null''),
                                 (''location'', PDict [(''file'', PInt 0)]),
                                 (hash_key, PStr ''g1'')],
                  bug_path = [], files = PList [PStr ''a.c'']\<rparr>],
    b_changed = True,
    b_world = (world_of (Content (bundle_of [PStr ''a.c''] [old_diag_at 0 []])))
                \<lparr>store := (store (world_of (Content (bundle_of [PStr ''a.c''] [old_diag_at 0 []]))))
                   (''x.plist'' := Content (bundle_of [PStr ''a.c'']
                      [PDict [(''check_name'', PStr ''core.Null''),
                              (''location'', PDict [(''file'', PInt 0)]),
                              (''path'', PList []), (hash_key, PStr ''g1'')]]))\<rparr>,
    b_log = []\<rparr>"
  by (simp add: parse_body_def readPlist_def world_of_def bundle_of_def old_diag_at_def
      bindE_def parse_diag_def get_checker_name_def get_report_hash_def primary_file_def
      under_source_root_def seq_index_def main_section_of_def hash_key_def const_hash_def
      writePlist_def Let_def)

theorem enrichment_idempotent_witness:
  "list_ex lacks_hash [old_diag_at 0 []]
   \<and> pending (parse_body const_hash
                (world_of (Content (bundle_of [PStr ''a.c''] [old_diag_at 0 []])))
                ''x.plist'' None True) = None
   \<and> store (fst (snd (parse_plist const_hash
                (world_of (Content (bundle_of [PStr ''a.c''] [old_diag_at 0 []])))
                ''x.plist'' None True))) ''x.plist'' =
       Content (bundle_of [PStr ''a.c'']
                  [PDict [(''check_name'', PStr ''core.Null''),
                          (''location'', PDict [(''file'', PInt 0)]),
                          (''path'', PList []), (hash_key, PStr ''g1'')]])
   \<and> \<not> b_changed (parse_body const_hash
                (fst (snd (parse_plist const_hash
                   (world_of (Content (bundle_of [PStr ''a.c''] [old_diag_at 0 []])))
                   ''x.plist'' None True)))
                ''x.plist'' None True)"
proof -
  let ?b = "bundle_of [PStr ''a.c''] [old_diag_at 0 []]"
  let ?w = "world_of (Content ?b)"
  have h1: "store ?w ''x.plist'' = Content ?b"
    by (simp add: world_of_def)
  have h2: "subscript ?b (PStr ''diagnostics'') = Inr (PList [old_diag_at 0 []])"
    by (simp add: bundle_of_def)
  have h3: "list_ex lacks_hash [old_diag_at 0 []]"
    by (simp add: lacks_hash_def old_diag_at_def hash_key_def)
  have h4: "pending (parse_body const_hash ?w ''x.plist'' None True) = None"
    by (simp add: old_diag_body)
  have st: "store (fst (snd (parse_plist const_hash ?w ''x.plist'' None True))) ''x.plist'' =
       Content (bundle_of [PStr ''a.c'']
                  [PDict [(''check_name'', PStr ''core.Null''),
                          (''location'', PDict [(''file'', PInt 0)]),
                          (''path'', PList []), (hash_key, PStr ''g1'')]])"
    by (simp add: parse_plist_def old_diag_body)
  show ?thesis
    using enrichment_idempotent [OF h1 h2 h3 h4, of True] h3 h4 st
    by auto
qed

section \<open>Properties of the file-exclusion filter\<close>

lemma mapE_only_KeyError:
  "\<forall>x\<in>set xs. only_KeyError (f x) \<Longrightarrow> only_KeyError (mapE f xs)"
  by (induction xs) (auto simp: only_KeyError_def split: sum.splits)

lemma mapE_total:
  "\<forall>x\<in>set xs. \<exists>y. f x = Inr y \<Longrightarrow> \<exists>ys. mapE f xs = Inr ys"
  by (induction xs) (auto split: sum.splits)

lemma bindE_only_KeyError:
  "only_KeyError m \<Longrightarrow> (\<And>v. m = Inr v \<Longrightarrow> only_KeyError (f v)) \<Longrightarrow> only_KeyError (bindE m f)"
  by (cases m) (auto simp: bindE_def only_KeyError_def)

lemma subscript_dict_only_KeyError:
  "only_KeyError (subscript (PDict al) (PStr k))"
  by (simp add: only_KeyError_def split: option.splits)

lemma file_ids_ok: "wf_locs v \<Longrightarrow> only_KeyError (file_ids v)"
proof -
  assume wf: "wf_locs v"
  then obtain ls where v: "v = PList ls" and ls: "list_all is_dict ls"
    by (cases v) (auto simp: wf_locs_def)
  have "\<forall>l\<in>set ls. only_KeyError (subscript l (PStr ''file''))"
  proof
    fix l assume "l \<in> set ls"
    with ls have "is_dict l" by (simp add: list_all_iff)
    then obtain al where "l = PDict al" by (cases l) auto
    then show "only_KeyError (subscript l (PStr ''file''))"
      using subscript_dict_only_KeyError by simp
  qed
  then have "only_KeyError (mapE (\<lambda>l. subscript l (PStr ''file'')) ls)"
    by (rule mapE_only_KeyError)
  then show ?thesis using v by (simp add: file_ids_def bindE_def)
qed

lemma fids_in_range_ok: "wf_ranges v \<Longrightarrow> only_KeyError (fids_in_range v)"
proof -
  assume wf: "wf_ranges v"
  then obtain rs where v: "v = PList rs" and rs: "list_all wf_locs rs"
    by (cases v) (auto simp: wf_ranges_def)
  have "only_KeyError (mapE file_ids rs)"
    using rs by (intro mapE_only_KeyError) (auto simp: list_all_iff file_ids_ok)
  then show ?thesis
    using v by (auto simp: fids_in_range_def bindE_def only_KeyError_def split: sum.splits)
qed

lemma edge_ok:
  assumes "wf_edge e"
  shows "only_KeyError (bindE (subscript e (PStr ''start'')) (\<lambda>start.
                      bindE (subscript e (PStr ''end'')) (\<lambda>end.
                      bindE (file_ids start) (\<lambda>a.
                      bindE (file_ids end) (\<lambda>b. Inr (a @ b))))))"
proof -
  from assms obtain al where e: "e = PDict al"
    and s: "case map_of al ''start'' of None \<Rightarrow> True | Some v \<Rightarrow> wf_locs v"
    and t: "case map_of al ''end'' of None \<Rightarrow> True | Some v \<Rightarrow> wf_locs v"
    by (cases e) (auto simp: wf_edge_def)
  show ?thesis
  proof (cases "map_of al ''start''")
    case None
    then show ?thesis using e by (simp add: bindE_def only_KeyError_def)
  next
    case (Some sv)
    then have sv: "only_KeyError (file_ids sv)" using s file_ids_ok by simp
    show ?thesis
    proof (cases "map_of al ''end''")
      case None
      then show ?thesis using e Some by (simp add: bindE_def only_KeyError_def)
    next
      case (Some tv)
      then have tv: "only_KeyError (file_ids tv)" using t file_ids_ok by simp
      show ?thesis
        using e \<open>map_of al ''start'' = Some sv\<close> Some sv tv
        by (auto simp: bindE_def only_KeyError_def split: sum.splits)
    qed
  qed
qed

lemma fids_in_edge_ok: "wf_edges v \<Longrightarrow> only_KeyError (fids_in_edge v)"
proof -
  assume wf: "wf_edges v"
  then obtain es where v: "v = PList es" and es: "list_all wf_edge es"
    by (cases v) (auto simp: wf_edges_def)
  have "only_KeyError (mapE (\<lambda>e. bindE (subscript e (PStr ''start'')) (\<lambda>start.
                      bindE (subscript e (PStr ''end'')) (\<lambda>end.
                      bindE (file_ids start) (\<lambda>a.
                      bindE (file_ids end) (\<lambda>b. Inr (a @ b)))))) es)"
    using es by (intro mapE_only_KeyError) (auto simp: list_all_iff edge_ok)
  then show ?thesis
    using v by (auto simp: fids_in_edge_def bindE_def only_KeyError_def split: sum.splits)
qed

lemma except_KeyError_pass_total:
  "only_KeyError r \<Longrightarrow> \<exists>xs. except_KeyError_pass r = Inr xs"
  by (cases r) (auto simp: except_KeyError_pass_def only_KeyError_def)

lemma path_fids_total: "wf_step pe \<Longrightarrow> \<exists>fs. path_fids pe = Inr fs"
proof -
  assume wf: "wf_step pe"
  then obtain al where pe: "pe = PDict al"
    and r: "case map_of al ''ranges'' of None \<Rightarrow> True | Some v \<Rightarrow> wf_ranges v"
    and l: "case map_of al ''location'' of None \<Rightarrow> True | Some v \<Rightarrow> is_dict v"
    and e: "case map_of al ''edges'' of None \<Rightarrow> True | Some v \<Rightarrow> wf_edges v"
    by (cases pe) (auto simp: wf_step_def)
  have a: "only_KeyError (bindE (subscript pe (PStr ''ranges'')) fids_in_range)"
    using pe r fids_in_range_ok
    by (cases "map_of al ''ranges''") (auto simp: bindE_def only_KeyError_def)
  have b: "only_KeyError (bindE (subscript pe (PStr ''location'')) (\<lambda>loc.
               bindE (subscript loc (PStr ''file'')) (\<lambda>fid. Inr [fid])))"
  proof (cases "map_of al ''location''")
    case None
    then show ?thesis using pe by (simp add: bindE_def only_KeyError_def)
  next
    case (Some v)
    with l obtain loc where "v = PDict loc" by (cases v) auto
    with Some pe show ?thesis
      by (auto simp: bindE_def only_KeyError_def split: option.splits)
  qed
  have c: "only_KeyError (bindE (subscript pe (PStr ''edges'')) fids_in_edge)"
    using pe e fids_in_edge_ok
    by (cases "map_of al ''edges''") (auto simp: bindE_def only_KeyError_def)
  from except_KeyError_pass_total [OF a] except_KeyError_pass_total [OF b]
    except_KeyError_pass_total [OF c]
  show ?thesis by (auto simp: path_fids_def bindE_def)
qed

lemma file_ids_to_remove_iff:
  "j \<in> set (file_ids_to_remove_of should_skip fs) \<longleftrightarrow> j < length fs \<and> should_skip (fs ! j)"
proof
  assume "j \<in> set (file_ids_to_remove_of should_skip fs)"
  then obtain p where p: "p \<in> set (enumerate 0 fs)" "should_skip (snd p)" "fst p = j"
    by (auto simp: file_ids_to_remove_of_def)
  from p(1) have "fst p < length fs" "snd p = fs ! fst p"
    by (simp_all add: in_set_enumerate_eq)
  with p(2,3) show "j < length fs \<and> should_skip (fs ! j)" by simp
next
  assume j: "j < length fs \<and> should_skip (fs ! j)"
  then have "(j, fs ! j) \<in> set (enumerate 0 fs)"
    by (simp add: in_set_enumerate_eq)
  with j have "(j, fs ! j) \<in> set (filter (\<lambda>p. should_skip (snd p)) (enumerate 0 fs))"
    by simp
  then have "fst (j, fs ! j) \<in> fst ` set (filter (\<lambda>p. should_skip (snd p)) (enumerate 0 fs))"
    by (rule imageI)
  then show "j \<in> set (file_ids_to_remove_of should_skip fs)"
    by (simp add: file_ids_to_remove_of_def)
qed

lemma in_file_ids_to_remove:
  assumes "0 \<le> i" and "i < int (length fs)"
  shows "in_file_ids (PInt i) (file_ids_to_remove_of should_skip fs) = should_skip (fs ! nat i)"
proof -
  have "i \<in> int ` set (file_ids_to_remove_of should_skip fs)
        \<longleftrightarrow> nat i \<in> set (file_ids_to_remove_of should_skip fs)"
  proof
    assume "i \<in> int ` set (file_ids_to_remove_of should_skip fs)"
    then obtain j where "j \<in> set (file_ids_to_remove_of should_skip fs)" "i = int j" by blast
    then show "nat i \<in> set (file_ids_to_remove_of should_skip fs)" by simp
  next
    assume "nat i \<in> set (file_ids_to_remove_of should_skip fs)"
    then have "int (nat i) \<in> int ` set (file_ids_to_remove_of should_skip fs)" by (rule imageI)
    then show "i \<in> int ` set (file_ids_to_remove_of should_skip fs)" using assms(1) by simp
  qed
  moreover have "nat i < length fs" using assms by linarith
  ultimately show ?thesis
    by (simp add: in_file_ids_def file_ids_to_remove_iff)
qed

lemma wf_diag_location:
  assumes "wf_diag n d"
  obtains i where "0 \<le> i" "i < int n"
    "bindE (subscript d (PStr ''location'')) (\<lambda>loc. subscript loc (PStr ''file'')) = Inr (PInt i)"
proof -
  from assms obtain al where d: "d = PDict al"
    by (cases d) (auto simp: wf_diag_def)
  from assms d obtain v where l: "map_of al ''location'' = Some v"
    by (cases "map_of al ''location''") (auto simp: wf_diag_def location_file_def)
  from assms d l obtain loc where v: "v = PDict loc"
    by (cases v) (auto simp: wf_diag_def location_file_def)
  from assms d l v obtain f where f: "map_of loc ''file'' = Some f"
    by (cases "map_of loc ''file''") (auto simp: wf_diag_def location_file_def)
  from assms d l v f obtain i where i: "f = PInt i" "0 \<le> i" "i < int n"
    by (cases f) (auto simp: wf_diag_def location_file_def)
  have "bindE (subscript d (PStr ''location'')) (\<lambda>loc. subscript loc (PStr ''file'')) =
          Inr (PInt i)"
    using d l v f i by (simp add: bindE_def)
  with i that show thesis by blast
qed

lemma wf_diag_path:
  assumes "wf_diag n d"
  shows "\<exists>fs. bindE (bindE (subscript d (PStr ''path'')) iterate)
                (\<lambda>pes. bindE (mapE path_fids pes) (\<lambda>fss. Inr (concat fss))) = Inr fs"
proof -
  from assms obtain al where d: "d = PDict al"
    by (cases d) (auto simp: wf_diag_def)
  from assms d obtain v where p: "map_of al ''path'' = Some v"
    by (cases "map_of al ''path''") (auto simp: wf_diag_def)
  from assms d p obtain pes where v: "v = PList pes" and pes: "list_all wf_step pes"
    by (cases v) (auto simp: wf_diag_def)
  have "\<exists>fss. mapE path_fids pes = Inr fss"
    using pes by (intro mapE_total) (auto simp: list_all_iff path_fids_total)
  then show ?thesis using d p v by (auto simp: bindE_def)
qed

lemma fids_loop_kept:
  assumes "list_all (wf_diag (length fs)) ds"
  shows "\<exists>fids. fids_loop (file_ids_to_remove_of should_skip fs) ds acc =
           Inr (fids, snd acc @ filter (\<lambda>d. \<not> location_excluded should_skip fs d) ds)"
  using assms
proof (induction ds arbitrary: acc)
  case Nil
  show ?case by (cases acc) simp
next
  case (Cons d ds)
  then have wf: "wf_diag (length fs) d" and rest: "list_all (wf_diag (length fs)) ds"
    by simp_all
  from wf obtain i where i: "0 \<le> i" "i < int (length fs)"
    and loc: "bindE (subscript d (PStr ''location'')) (\<lambda>loc. subscript loc (PStr ''file'')) =
                Inr (PInt i)"
    by (rule wf_diag_location)
  have ex: "location_excluded should_skip fs d = should_skip (fs ! nat i)"
    using loc i
    by (auto simp: location_excluded_def primary_file_def bindE_def seq_index_def split: sum.splits)
  have rm: "in_file_ids (PInt i) (file_ids_to_remove_of should_skip fs) =
              should_skip (fs ! nat i)"
    using i by (rule in_file_ids_to_remove)
  show ?case
  proof (cases "should_skip (fs ! nat i)")
    case True
    with Cons.IH [OF rest, of acc] loc rm ex show ?thesis by simp
  next
    case False
    from wf_diag_path [OF wf] obtain pf where
      pf: "bindE (bindE (subscript d (PStr ''path'')) iterate)
                (\<lambda>pes. bindE (mapE path_fids pes) (\<lambda>fss. Inr (concat fss))) = Inr pf"
      by blast
    from Cons.IH [OF rest, of "(fst acc @ pf, snd acc @ [d])"] False loc rm ex pf
    show ?thesis by simp
  qed
qed

lemma location_excluded_by_entry:
  "location_excluded should_skip fs d =
     (case location_file d of
        None \<Rightarrow> False
      | Some v \<Rightarrow> (case subscript (PList fs) v of Inl e \<Rightarrow> False | Inr f \<Rightarrow> should_skip f))"
proof (cases d)
  case (PDict al)
  show ?thesis
  proof (cases "map_of al ''location''")
    case None
    with PDict show ?thesis
      by (simp add: location_excluded_def primary_file_def bindE_def location_file_def)
  next
    case (Some v)
    with PDict show ?thesis
      by (cases v)
         (simp_all add: location_excluded_def primary_file_def bindE_def location_file_def
            split: option.splits)
  qed
qed (simp_all add: location_excluded_def primary_file_def bindE_def location_file_def)

text \<open>
  Claim C3, as amended. For a bundle of the analyzer's shape and any exclusion predicate,
  the filter returns the bundle with its diagnostics replaced by those for which the file
  named by the diagnostic's own \<^verbatim>\<open>location\<close> entry does not satisfy the predicate,
  in their original order, and with every other entry, the file table among them, as it
  was. Whether a diagnostic is removed depends on that entry alone: two diagnostics with
  the same \<^verbatim>\<open>location\<close> are both removed or both kept, whatever files the steps,
  ranges and edges of their paths mention, the last event step included.
\<close>

theorem exclusion_filter_correct:
  assumes "wf_bundle fs ds al"
  shows "remove_report_from_plist (Content (PDict al)) should_skip =
           Inr (Content (PDict (dict_set ''diagnostics''
                  (PList (filter (\<lambda>d. \<not> location_excluded should_skip fs d) ds)) al)))
         \<and> (\<exists>fids. fids_in_path (PDict al) (file_ids_to_remove_of should_skip fs) =
                      Inr (fids, filter (\<lambda>d. \<not> location_excluded should_skip fs d) ds))
         \<and> map_of (dict_set ''diagnostics''
                     (PList (filter (\<lambda>d. \<not> location_excluded should_skip fs d) ds)) al) ''files'' =
             Some (PList fs)
         \<and> (\<forall>d d'. location_file d = location_file d'
                \<longrightarrow> location_excluded should_skip fs d = location_excluded should_skip fs d')"
proof -
  let ?kept = "filter (\<lambda>d. \<not> location_excluded should_skip fs d) ds"
  from assms have f: "map_of al ''files'' = Some (PList fs)"
    and d: "map_of al ''diagnostics'' = Some (PList ds)"
    and wf: "list_all (wf_diag (length fs)) ds"
    by (simp_all add: wf_bundle_def)
  from fids_loop_kept [OF wf, of should_skip "([], [])"] obtain fids where
    loop: "fids_loop (file_ids_to_remove_of should_skip fs) ds ([], []) = Inr (fids, ?kept)"
    by auto
  have path: "fids_in_path (PDict al) (file_ids_to_remove_of should_skip fs) =
                Inr (fids, ?kept)"
    using d loop by (simp add: fids_in_path_def bindE_def)
  have 1: "remove_report_from_plist (Content (PDict al)) should_skip =
           Inr (Content (PDict (dict_set ''diagnostics'' (PList ?kept) al)))"
    using f path by (simp add: remove_report_from_plist_def bindE_def)
  have 3: "map_of (dict_set ''diagnostics'' (PList ?kept) al) ''files'' = Some (PList fs)"
    using f by (simp add: map_of_dict_set)
  have 4: "\<forall>d d'. location_file d = location_file d'
                \<longrightarrow> location_excluded should_skip fs d = location_excluded should_skip fs d'"
    by (simp add: location_excluded_by_entry)
  show ?thesis using 1 path 3 4 by blast
qed

theorem exclusion_filter_correct_witness:
  "remove_report_from_plist
     (Content (PDict [(''files'', PList [PStr ''a.c'', PStr ''b.c'']),
                      (''diagnostics'', PList [diag_at 0 [step_at ''event'' 1],
                                               diag_at 1 [step_at ''event'' 0]])]))
     (\<lambda>f. f = PStr ''b.c'') =
   Inr (Content (PDict [(''files'', PList [PStr ''a.c'', PStr ''b.c'']),
                        (''diagnostics'', PList [diag_at 0 [step_at ''event'' 1]])]))"
proof -
  let ?fs = "[PStr ''a.c'', PStr ''b.c'']"
  let ?ds = "[diag_at 0 [step_at ''event'' 1], diag_at 1 [step_at ''event'' 0]]"
  have wf: "wf_bundle ?fs ?ds [(''files'', PList ?fs), (''diagnostics'', PList ?ds)]"
    by (simp add: wf_bundle_def wf_diag_def location_file_def diag_at_def step_at_def
        wf_step_def hash_key_def)
  have e0: "\<not> location_excluded (\<lambda>f. f = PStr ''b.c'') ?fs (diag_at 0 [step_at ''event'' 1])"
    by (simp add: location_excluded_def primary_file_def bindE_def diag_at_def seq_index_def
        hash_key_def)
  have e1: "location_excluded (\<lambda>f. f = PStr ''b.c'') ?fs (diag_at 1 [step_at ''event'' 0])"
    by (simp add: location_excluded_def primary_file_def bindE_def diag_at_def seq_index_def
        hash_key_def)
  show ?thesis
    using exclusion_filter_correct [OF wf, of "\<lambda>f. f = PStr ''b.c''", THEN conjunct1] e0 e1
    by simp
qed

text \<open>
  The claim as first stated, with the primary location read as the glossary defines it,
  fails on a bundle of two diagnostics over the files \<open>a.c\<close> and \<open>b.c\<close> when \<open>b.c\<close>
  is excluded: the first diagnostic is located in \<open>a.c\<close> and has its only event step in
  \<open>b.c\<close>, the second the other way round. The filter keeps the first, whose
  primary-location file is excluded, and removes the second, whose primary-location file
  is not.
\<close>

theorem primary_location_counterexample:
  "remove_report_from_plist
     (Content (PDict [(''files'', PList [PStr ''a.c'', PStr ''b.c'']),
                      (''diagnostics'', PList [diag_at 0 [step_at ''event'' 1],
                                               diag_at 1 [step_at ''event'' 0]])]))
     (\<lambda>f. f = PStr ''b.c'') =
   Inr (Content (PDict [(''files'', PList [PStr ''a.c'', PStr ''b.c'']),
                        (''diagnostics'', PList [diag_at 0 [step_at ''event'' 1]])]))
   \<and> last_event_file [PStr ''a.c'', PStr ''b.c''] (diag_at 0 [step_at ''event'' 1]) =
       Inr (PStr ''b.c'')
   \<and> last_event_file [PStr ''a.c'', PStr ''b.c''] (diag_at 1 [step_at ''event'' 0]) =
       Inr (PStr ''a.c'')"
  by code_simp

section \<open>Properties of the formatter\<close>

lemma total_bump: "total (bump k al) = total al + 1"
  by (induction al) (auto simp: bump_def total_def)

lemma write_steps_extends:
  "write_steps col ft width index events out = (r, out') \<Longrightarrow> \<exists>chunks. out' = out @ chunks"
proof (induction events arbitrary: index out)
  case Nil
  then show ?case by simp
next
  case (Cons event rest)
  show ?case
  proof (cases "primary_file ft event")
    case (Inl e)
    with Cons.prems show ?thesis by (auto simp: Let_def)
  next
    case sf: (Inr source_file)
    show ?thesis
    proof (cases "format_bug_event col PNone [] event source_file")
      case (Inl e)
      with Cons.prems sf show ?thesis by (auto simp: Let_def)
    next
      case (Inr rendered)
      with Cons.prems sf have
        "write_steps col ft width (index + 1) rest
           ((out @ [index_format width (index + 1)]) @ [rendered, [CHR 0x0A]]) = (r, out')"
        by (simp add: Let_def)
      from Cons.IH [OF this] show ?thesis by auto
    qed
  qed
qed

lemma print_steps_of_extends:
  "print_steps_of col ft width report_hash events out = (r, out')
   \<Longrightarrow> \<exists>chunks. out' = out @ chunks"
  by (cases report_hash) (auto simp: print_steps_of_def dest: write_steps_extends)

lemma count_and_render_result:
  assumes "count_and_render self col ft width events f_path ls s = (Inr v, s')"
  shows "v = Rendered
         \<and> total (severity_stats s') = total (severity_stats s) + 1
         \<and> total (file_stats s') = total (file_stats s) + 1
         \<and> total (report_count s') = total (report_count s) + 1
         \<and> map_of (report_count s') ''report_count'' =
             Some (case map_of (report_count s) ''report_count'' of None \<Rightarrow> 1 | Some c \<Rightarrow> c + 1)
         \<and> non_suppressed s' = non_suppressed s + 1
         \<and> handler_now s' = handler_now s
         \<and> (\<exists>chunks. chunks \<noteq> [] \<and> output s' = output s @ chunks)"
proof -
  obtain last_report_event source_file report_line report_hash checker_name where
    ls: "ls = (last_report_event, source_file, report_line, report_hash, checker_name)"
    by (cases ls) auto
  from assms ls obtain fk where fk: "dict_key f_path = Inr fk"
    by (cases "dict_key f_path") (auto simp: count_and_render_def)
  from assms ls fk obtain severity where sev: "severity_of self checker_name = Inr severity"
    by (cases "severity_of self checker_name") (auto simp: count_and_render_def Let_def)
  from assms ls fk sev obtain header where
    hdr: "format_bug_event col checker_name severity last_report_event source_file = Inr header"
    by (cases "format_bug_event col checker_name severity last_report_event source_file")
       (auto simp: count_and_render_def Let_def)
  from assms ls fk sev hdr obtain ctx where
    cx: "format_location col last_report_event source_file = Inr ctx"
    by (cases "format_location col last_report_event source_file")
       (auto simp: count_and_render_def Let_def)
  let ?out4 = "output s @ [header, [CHR 0x0A]] @ [ctx, [CHR 0x0A]]"
  let ?steps = "print_steps_of col ft width report_hash events ?out4"
  obtain r out where ps: "(if print_steps self then ?steps else (None, ?out4)) = (r, out)"
    by (cases "if print_steps self then ?steps else (None, ?out4)") auto
  have r: "r = None"
  proof (cases "print_steps self")
    case True
    with assms ls fk sev hdr cx ps show ?thesis
      by (cases r) (auto simp: count_and_render_def Let_def)
  next
    case False
    with ps show ?thesis by simp
  qed
  from ps obtain chunks where out: "out = ?out4 @ chunks"
    by (cases "print_steps self") (auto dest: print_steps_of_extends)
  have s':
    "v = Rendered \<and>
     s' = s\<lparr>file_stats := bump fk (file_stats s),
            severity_stats := bump severity (severity_stats s),
            report_count := bump ''report_count'' (report_count s),
            output := out @ [[CHR 0x0A]],
            non_suppressed := non_suppressed s + 1\<rparr>"
  proof (cases "print_steps self")
    case True
    with assms ls fk sev hdr cx ps r show ?thesis
      by (auto simp: count_and_render_def Let_def)
  next
    case False
    with assms ls fk sev hdr cx ps r show ?thesis
      by (auto simp: count_and_render_def Let_def)
  qed
  have rc: "map_of (bump ''report_count'' (report_count s)) ''report_count'' =
             Some (case map_of (report_count s) ''report_count'' of None \<Rightarrow> 1 | Some c \<Rightarrow> c + 1)"
    by (simp add: bump_def map_of_dict_set)
  show ?thesis
    using s' out rc by (simp add: total_bump)
qed

lemma write_bug_dropped:
  assumes "write_bug self col ft width r s = (Inr Dropped, s')"
  shows "severity_stats s' = severity_stats s \<and> file_stats s' = file_stats s
         \<and> report_count s' = report_count s \<and> non_suppressed s' = non_suppressed s
         \<and> output s' = output s"
  using assms
  by (auto simp: write_bug_def split: sum.splits if_splits prod.splits option.splits
      dest: count_and_render_result)

lemma write_bug_rendered:
  assumes "write_bug self col ft width r s = (Inr Rendered, s')"
  shows "total (severity_stats s') = total (severity_stats s) + 1
         \<and> total (file_stats s') = total (file_stats s) + 1
         \<and> total (report_count s') = total (report_count s) + 1
         \<and> map_of (report_count s') ''report_count'' =
             Some (case map_of (report_count s) ''report_count'' of None \<Rightarrow> 1 | Some c \<Rightarrow> c + 1)
         \<and> non_suppressed s' = non_suppressed s + 1
         \<and> (\<exists>chunks. chunks \<noteq> [] \<and> output s' = output s @ chunks)"
  using assms
  by (auto simp: write_bug_def split: sum.splits if_splits prod.splits option.splits
      dest: count_and_render_result)

lemma write_loop_counts:
  assumes "write_loop self col ft width reps s = (None, s')"
  shows "total (severity_stats s') =
           total (severity_stats s) + rendered_count (verdicts self col ft width reps s)
         \<and> total (file_stats s') =
             total (file_stats s) + rendered_count (verdicts self col ft width reps s)
         \<and> total (report_count s') =
             total (report_count s) + rendered_count (verdicts self col ft width reps s)
         \<and> aggregate_count (report_count s') =
             aggregate_count (report_count s)
             + rendered_count (verdicts self col ft width reps s)
         \<and> non_suppressed s' =
             non_suppressed s + rendered_count (verdicts self col ft width reps s)
         \<and> length (verdicts self col ft width reps s) = length reps"
  using assms
proof (induction reps arbitrary: s)
  case Nil
  then show ?case by (simp add: rendered_count_def)
next
  case (Cons r reps)
  obtain res s1 where step: "write_bug self col ft width r s = (res, s1)"
    by (cases "write_bug self col ft width r s") auto
  with Cons.prems obtain v where res: "res = Inr v"
    by (cases res) auto
  from Cons.prems step res have rest: "write_loop self col ft width reps s1 = (None, s')"
    by simp
  note IH = Cons.IH [OF rest]
  have vs: "verdicts self col ft width (r # reps) s = v # verdicts self col ft width reps s1"
    using step res by simp
  show ?case
  proof (cases v)
    case Dropped
    from write_bug_dropped [of self col ft width r s s1] step res Dropped
    have "severity_stats s1 = severity_stats s" "file_stats s1 = file_stats s"
      "report_count s1 = report_count s" "non_suppressed s1 = non_suppressed s"
      by simp_all
    with IH vs Dropped show ?thesis by (simp add: rendered_count_def)
  next
    case Rendered
    from write_bug_rendered [of self col ft width r s s1] step res Rendered
    have "total (severity_stats s1) = total (severity_stats s) + 1"
      "total (file_stats s1) = total (file_stats s) + 1"
      "total (report_count s1) = total (report_count s) + 1"
      "aggregate_count (report_count s1) = aggregate_count (report_count s) + 1"
      "non_suppressed s1 = non_suppressed s + 1"
      by (simp_all add: aggregate_count_def split: option.splits)
    with IH vs Rendered show ?thesis by (simp add: rendered_count_def)
  qed
qed

text \<open>
  In every pass of \<^verbatim>\<open>__write_bugs\<close> that runs to its end, the values of the
  severity statistics, the values of the file statistics and the aggregate report count
  each sum to the number of findings rendered, which is also the counter behind the
  summary line. A finding that the pass drops (by the suppression store or by an inline
  suppression) leaves the three statistics, the counter and the output as they were; a
  finding that it renders adds text to the output.
\<close>

lemma statistics_consistent:
  assumes "write_bugs self col out reps ft analyzed_source_file = (None, st)"
  shows "total (severity_stats st) =
           rendered_count (verdicts self col ft (length (dec_of_nat (length reps))) reps
                             (initial_wstate self out))
         \<and> total (file_stats st) = total (severity_stats st)
         \<and> aggregate_count (report_count st) = total (severity_stats st)
         \<and> total (report_count st) = total (severity_stats st)
         \<and> non_suppressed st = total (severity_stats st)
         \<and> (\<forall>width r s s'. write_bug self col ft width r s = (Inr Dropped, s')
               \<longrightarrow> severity_stats s' = severity_stats s \<and> file_stats s' = file_stats s
                   \<and> report_count s' = report_count s \<and> output s' = output s)
         \<and> (\<forall>width r s s'. write_bug self col ft width r s = (Inr Rendered, s')
               \<longrightarrow> (\<exists>chunks. chunks \<noteq> [] \<and> output s' = output s @ chunks))"
proof -
  let ?w = "length (dec_of_nat (length reps))"
  let ?s0 = "initial_wstate self out"
  obtain pend s1 where loop: "write_loop self col ft ?w reps ?s0 = (pend, s1)"
    by (cases "write_loop self col ft ?w reps ?s0") auto
  from assms loop have pend: "pend = None"
    by (cases pend) (auto simp: write_bugs_def)
  from assms loop pend have st:
    "st = s1\<lparr>output := output s1 @ [summary_line (non_suppressed s1) analyzed_source_file]\<rparr>"
    by (auto simp: write_bugs_def)
  from write_loop_counts [of self col ft ?w reps ?s0 s1] loop pend
  have counts:
    "total (severity_stats s1) = rendered_count (verdicts self col ft ?w reps ?s0)"
    "total (file_stats s1) = rendered_count (verdicts self col ft ?w reps ?s0)"
    "total (report_count s1) = rendered_count (verdicts self col ft ?w reps ?s0)"
    "aggregate_count (report_count s1) = rendered_count (verdicts self col ft ?w reps ?s0)"
    "non_suppressed s1 = rendered_count (verdicts self col ft ?w reps ?s0)"
    by (simp_all add: initial_wstate_def total_def aggregate_count_def)
  have dropped: "\<forall>width r s s'. write_bug self col ft width r s = (Inr Dropped, s')
               \<longrightarrow> severity_stats s' = severity_stats s \<and> file_stats s' = file_stats s
                   \<and> report_count s' = report_count s \<and> output s' = output s"
    using write_bug_dropped by blast
  have rendered: "\<forall>width r s s'. write_bug self col ft width r s = (Inr Rendered, s')
               \<longrightarrow> (\<exists>chunks. chunks \<noteq> [] \<and> output s' = output s @ chunks)"
    using write_bug_rendered by blast
  show ?thesis
    using st counts dropped rendered by simp
qed

lemma example_pass:
  "write_bugs (example_formatter False) example_collab []
     [report_of ''h0'' [step_at ''event'' 0] (PList [PStr ''/x/a.c'', PStr ''b.c'']),
      report_of ''h1'' [step_at ''control'' 0, step_at ''event'' 1]
        (PList [PStr ''/x/a.c'', PStr ''b.c''])]
     (PList [PStr ''/x/a.c'', PStr ''b.c'']) None =
   (None,
    \<lparr>severity_stats = [(''HIGH'', 1)], file_stats = [(PStr ''b.c'', 1)],
     report_count = [(''report_count'', 1)], non_suppressed = 1,
     output = [''[HIGH] b.c:3:2: m [core.Null]'', [CHR 0x0A], [], [CHR 0x0A], [CHR 0x0A],
               ''Found 1 defect(s) while analyzing'' @ [CHR 0x0A, CHR 0x0A]],
     handler_now = suppress_handler (example_formatter False)\<rparr>)"
  by (simp add: write_bugs_def initial_wstate_def write_bug_def display_file_def is_event_def
      bindE_def step_at_def report_of_def seq_index_def primary_file_def is_skipped_def
      example_formatter_def example_collab_def is_stored_suppressed_def get_suppressed_def
      suppress_matches_def make_bug_def py_basename_def basename_def tuple3_truthy_def
      last_step_def count_and_render_def dict_key_def severity_of_def bump_def
      format_bug_event_def format_location_def fmt_d_def fmt_s_def dec_of_int_def
      dec_of_nat.simps summary_line_def basefile_print_def hash_key_def Let_def)

lemma statistics_consistent_example:
  "fst (write_bugs (example_formatter False) example_collab []
     [report_of ''h0'' [step_at ''event'' 0] (PList [PStr ''/x/a.c'', PStr ''b.c'']),
      report_of ''h1'' [step_at ''control'' 0, step_at ''event'' 1]
        (PList [PStr ''/x/a.c'', PStr ''b.c''])]
     (PList [PStr ''/x/a.c'', PStr ''b.c'']) None) = None
   \<and> rendered_count (verdicts (example_formatter False) example_collab
        (PList [PStr ''/x/a.c'', PStr ''b.c'']) 1
        [report_of ''h0'' [step_at ''event'' 0] (PList [PStr ''/x/a.c'', PStr ''b.c'']),
         report_of ''h1'' [step_at ''control'' 0, step_at ''event'' 1]
           (PList [PStr ''/x/a.c'', PStr ''b.c''])]
        (initial_wstate (example_formatter False) [])) = 1"
  using statistics_consistent [OF example_pass, THEN conjunct1]
  by (simp add: example_pass total_def dec_of_nat.simps)

text \<open>
  Claim C5 describes what the code does not do for a finding that the exclusion policy
  names. The exclusion check never answers that the finding is to be dropped: once the
  skip handler has matched the display file, building the debug message at line 357
  raises TypeError, and the pass ends there. In a pass over a finding in \<open>a.c\<close> and a
  finding in the excluded \<open>b.c\<close>, the first is counted and rendered, the second ends the
  pass with TypeError, no summary line is written and \<^verbatim>\<open>parse_and_write\<close> hands the
  exception, not the statistics, to its caller.
\<close>

theorem excluded_finding_ends_pass:
  "is_skipped self report f_path \<noteq> Inr True
   \<and> write_bugs ((example_formatter False)\<lparr>skiplist_handler := Some (\<lambda>f. f = PStr ''b.c'')\<rparr>)
       example_collab []
       [report_of ''h1'' [step_at ''event'' 0] (PList [PStr ''a.c'', PStr ''b.c'']),
        report_of ''h2'' [step_at ''event'' 1] (PList [PStr ''a.c'', PStr ''b.c''])]
       (PList [PStr ''a.c'', PStr ''b.c'']) None =
     (Some TypeError,
      \<lparr>severity_stats = [(''HIGH'', 1)], file_stats = [(PStr ''a.c'', 1)],
       report_count = [(''report_count'', 1)], non_suppressed = 1,
       output = [''[HIGH] a.c:3:2: m [core.Null]'', [CHR 0x0A], [], [CHR 0x0A], [CHR 0x0A]],
       handler_now = suppress_handler (example_formatter False)\<rparr>)
   \<and> fst (parse_and_write
            ((example_formatter False)\<lparr>skiplist_handler := Some (\<lambda>f. f = PStr ''b.c'')\<rparr>)
            example_collab const_hash
            (world_of (Content (bundle_of [PStr ''a.c'', PStr ''b.c'']
                                  [diag_at 0 [step_at ''event'' 0],
                                   diag_at 1 [step_at ''event'' 1]])))
            ''x.plist'' None []) = Inl TypeError"
proof -
  have 1: "is_skipped self report f_path \<noteq> Inr True"
    by (simp add: is_skipped_def report_plus_def bindE_def split: option.splits)
  have 2: "write_bugs ((example_formatter False)\<lparr>skiplist_handler := Some (\<lambda>f. f = PStr ''b.c'')\<rparr>)
       example_collab []
       [report_of ''h1'' [step_at ''event'' 0] (PList [PStr ''a.c'', PStr ''b.c'']),
        report_of ''h2'' [step_at ''event'' 1] (PList [PStr ''a.c'', PStr ''b.c''])]
       (PList [PStr ''a.c'', PStr ''b.c'']) None =
     (Some TypeError,
      \<lparr>severity_stats = [(''HIGH'', 1)], file_stats = [(PStr ''a.c'', 1)],
       report_count = [(''report_count'', 1)], non_suppressed = 1,
       output = [''[HIGH] a.c:3:2: m [core.Null]'', [CHR 0x0A], [], [CHR 0x0A], [CHR 0x0A]],
       handler_now = suppress_handler (example_formatter False)\<rparr>)"
    by (simp add: write_bugs_def initial_wstate_def write_bug_def display_file_def is_event_def
      bindE_def step_at_def report_of_def seq_index_def primary_file_def is_skipped_def
      report_plus_def
      example_formatter_def example_collab_def is_stored_suppressed_def get_suppressed_def
      suppress_matches_def make_bug_def py_basename_def basename_def tuple3_truthy_def
      last_step_def count_and_render_def dict_key_def severity_of_def bump_def
      format_bug_event_def format_location_def fmt_d_def fmt_s_def dec_of_int_def
      dec_of_nat.simps summary_line_def basefile_print_def hash_key_def Let_def)
  have 3: "fst (parse_and_write
            ((example_formatter False)\<lparr>skiplist_handler := Some (\<lambda>f. f = PStr ''b.c'')\<rparr>)
            example_collab const_hash
            (world_of (Content (bundle_of [PStr ''a.c'', PStr ''b.c'']
                                  [diag_at 0 [step_at ''event'' 0],
                                   diag_at 1 [step_at ''event'' 1]])))
            ''x.plist'' None []) = Inl TypeError"
    by code_simp
  show ?thesis using 1 2 3 by simp
qed

lemma is_event_dict:
  "is_dict s \<Longrightarrow> is_event s = Inr (get_method s ''kind'' = Inr (PStr ''event''))"
  by (cases s) (auto simp: is_event_def bindE_def split: option.splits)

lemma filterE_is_event:
  "list_all is_dict steps \<Longrightarrow>
   filterE is_event steps =
     Inr (filter (\<lambda>s. get_method s ''kind'' = Inr (PStr ''event'')) steps)"
  by (induction steps) (auto simp: is_event_dict)

lemma seq_index_last: "seq_index (xs @ [x]) (- 1) = Inr x"
  by (simp add: seq_index_def nth_append)

text \<open>
  Claim C6, as amended. Take a report whose path steps are dictionaries. If the path has
  a step of kind \<^verbatim>\<open>event\<close>, the display file is the entry of the file table at the
  file index of the location of the last such step. If the path has no step of kind
  \<^verbatim>\<open>event\<close>, there is no fallback to the last path step: taking the last element
  of the empty list of events raises IndexError, and the body of the loop ends with that
  exception and an unchanged state.
\<close>

theorem display_file_last_event:
  assumes "list_all is_dict (bug_path r)"
  shows "(bug_path r = pre @ e # post
          \<and> get_method e ''kind'' = Inr (PStr ''event'')
          \<and> list_all (\<lambda>s. get_method s ''kind'' \<noteq> Inr (PStr ''event'')) post
          \<longrightarrow> (case display_file ft r of Inl x \<Rightarrow> Inl x | Inr ef \<Rightarrow> Inr (snd ef)) =
                primary_file ft e)
         \<and> (list_all (\<lambda>s. get_method s ''kind'' \<noteq> Inr (PStr ''event'')) (bug_path r)
          \<longrightarrow> display_file ft r = Inl IndexError
              \<and> write_bug self col ft width r st = (Inl IndexError, st))"
proof -
  let ?ev = "\<lambda>s. get_method s ''kind'' = Inr (PStr ''event'')"
  have events: "filterE is_event (bug_path r) = Inr (filter ?ev (bug_path r))"
    using assms by (rule filterE_is_event)
  have 1: "(case display_file ft r of Inl x \<Rightarrow> Inl x | Inr ef \<Rightarrow> Inr (snd ef)) =
             primary_file ft e"
    if split: "bug_path r = pre @ e # post" and e: "?ev e"
      and post: "list_all (\<lambda>s. \<not> ?ev s) post"
  proof -
    have "filter ?ev post = []"
      using post by (simp add: list_all_iff filter_empty_conv)
    then have "filter ?ev (bug_path r) = filter ?ev pre @ [e]"
      using split e by simp
    then show ?thesis
      using events by (simp add: display_file_def bindE_def seq_index_last split: sum.splits)
  qed
  have 2: "display_file ft r = Inl IndexError
           \<and> write_bug self col ft width r st = (Inl IndexError, st)"
    if none: "list_all (\<lambda>s. \<not> ?ev s) (bug_path r)"
  proof -
    have "filter ?ev (bug_path r) = []"
      using none by (simp add: list_all_iff filter_empty_conv)
    then have "display_file ft r = Inl IndexError"
      using events by (simp add: display_file_def bindE_def seq_index_def)
    then show ?thesis by (simp add: write_bug_def)
  qed
  show ?thesis using 1 2 by blast
qed

theorem display_file_last_event_witness:
  "(case display_file (PList [PStr ''a.c'', PStr ''b.c''])
           (report_of ''h1'' [step_at ''control'' 0, step_at ''event'' 1, step_at ''control'' 0]
              (PList [PStr ''a.c'', PStr ''b.c''])) of
      Inl x \<Rightarrow> Inl x | Inr ef \<Rightarrow> Inr (snd ef)) = Inr (PStr ''b.c'')"
proof -
  let ?r = "report_of ''h1'' [step_at ''control'' 0, step_at ''event'' 1, step_at ''control'' 0]
              (PList [PStr ''a.c'', PStr ''b.c''])"
  have h: "list_all is_dict (bug_path ?r)"
    by (simp add: report_of_def step_at_def)
  have p: "bug_path ?r = [step_at ''control'' 0] @ step_at ''event'' 1 # [step_at ''control'' 0]
           \<and> get_method (step_at ''event'' 1) ''kind'' = Inr (PStr ''event'')
           \<and> list_all (\<lambda>s. get_method s ''kind'' \<noteq> Inr (PStr ''event''))
               [step_at ''control'' 0]"
    by (simp add: report_of_def step_at_def)
  have f: "primary_file (PList [PStr ''a.c'', PStr ''b.c'']) (step_at ''event'' 1) =
             Inr (PStr ''b.c'')"
    by (simp add: primary_file_def step_at_def bindE_def seq_index_def)
  from display_file_last_event [OF h, THEN conjunct1, rule_format, OF p]
  show ?thesis using f by simp
qed

text \<open>
  The claim as first stated fails on a report whose only path step is a control step in
  \<open>a.c\<close>: the last path step names a file of the table, yet no display file is found and
  the pass ends with IndexError.
\<close>

theorem no_event_step_counterexample:
  "display_file (PList [PStr ''a.c''])
     (report_of ''h1'' [step_at ''control'' 0] (PList [PStr ''a.c''])) = Inl IndexError
   \<and> primary_file (PList [PStr ''a.c'']) (last [step_at ''control'' 0]) = Inr (PStr ''a.c'')
   \<and> fst (write_bugs (example_formatter False) example_collab []
            [report_of ''h1'' [step_at ''control'' 0] (PList [PStr ''a.c''])]
            (PList [PStr ''a.c'']) None) = Some IndexError"
  by (simp add: display_file_def is_event_def bindE_def step_at_def report_of_def
      seq_index_def primary_file_def write_bugs_def write_bug_def)

text \<open>
  Claim C7 describes what the code does not do. \<^verbatim>\<open>parse_plist\<close> never raises, so the
  \<^verbatim>\<open>except\<close> clause of \<^verbatim>\<open>parse_and_write\<close> that returns 1 is never entered:
  no call returns 1, and on a bundle that cannot be parsed at all the entry point writes
  the summary of an empty pass and returns the statistics, all empty.
\<close>

theorem parse_failure_returns_statistics:
  "fst (parse_and_write self col gen w plist_file analyzed_source_file out)
     \<noteq> Inr (ReturnedInt 1)
   \<and> parse_and_write (example_formatter False) example_collab const_hash
       (world_of (Unreadable ExpatError)) ''x.plist'' None [] =
     (Inr (ReturnedStats \<lparr>stats_severity = [], stats_files = [], stats_reports = []\<rparr>),
      [''Found no defects while analyzing'' @ [CHR 0x0A]],
      world_of (Unreadable ExpatError))"
proof -
  have "fst (parse_and_write self col gen w plist_file analyzed_source_file out)
          \<noteq> Inr (ReturnedInt 1)"
    by (auto simp: parse_and_write_def parse_plist_def finally_return_def Let_def
        split: prod.splits sum.splits option.splits)
  moreover have "parse_and_write (example_formatter False) example_collab const_hash
       (world_of (Unreadable ExpatError)) ''x.plist'' None [] =
     (Inr (ReturnedStats \<lparr>stats_severity = [], stats_files = [], stats_reports = []\<rparr>),
      [''Found no defects while analyzing'' @ [CHR 0x0A]],
      world_of (Unreadable ExpatError))"
    by (simp add: parse_and_write_def parse_plist_def finally_return_def parse_body_def
        readPlist_def world_of_def write_bugs_def initial_wstate_def summary_line_def
        basefile_print_def)
  ultimately show ?thesis by simp
qed

text \<open>
  Claim C8 describes what the code does not do. The width of the index field is the
  number of digits of the number of reports of the pass, not of the number of steps of the
  finding. In a pass over one report with ten event steps the field is one character
  wide: step 1 is written as four spaces and \<open>1\<close>, not right-justified to the two
  characters that step 10 takes.
\<close>

theorem step_index_width_is_report_count_width:
  "(let out = output (snd (write_bugs (example_formatter True) example_collab []
                 [report_of ''h1'' (replicate 10 (step_at ''event'' 1))
                    (PList [PStr ''a.c'', PStr ''b.c''])]
                 (PList [PStr ''a.c'', PStr ''b.c'']) None))
    in out ! 6 = ''    1, '' \<and> out ! 33 = ''    10, ''
       \<and> index_format (length (dec_of_nat 10)) 1 = ''     1, '')"
  by code_simp

end
